theory Spec2Isabelle
  imports Complex_Main
begin

section \<open>The interactive PDF viewer (component \<open>PdfPreview\<close>)\<close>

text \<open>
  The component keeps its state in React hooks (\<open>useState\<close>, \<open>useRef\<close>) and changes it
  in event handlers. Each handler is modelled as a function from the state before the
  event to the state after it; an updater passed to a setter (\<open>setZoom(prev \<Rightarrow> ...)\<close>)
  reads the state the handler is applied to. JavaScript numbers are modelled as the
  reals they approximate (page and spread numbers as integers), \<open>null\<close> as \<open>None\<close>.
\<close>

subsection \<open>Constants\<close>

definition MIN_ZOOM :: real where
  "MIN_ZOOM = 1"

definition MAX_ZOOM :: real where
  "MAX_ZOOM = 8"

definition ZOOM_STEP :: real where
  "ZOOM_STEP = 3 / 10"

subsection \<open>Data\<close>

text \<open>A point \<open>{ x, y }\<close>: the pan offset and the two drag references.\<close>

record point =
  px :: real
  py :: real

text \<open>
  The selection rectangle \<open>{ startX, startY, x, y, w, h }\<close>, in pixels relative to the
  container. The fields \<open>x, y, w, h\<close> of the source are \<open>selX, selY, selW, selH\<close> here.
\<close>

record selection =
  startX :: real
  startY :: real
  selX :: real
  selY :: real
  selW :: real
  selH :: real

text \<open>
  What \<open>getBoundingClientRect()\<close> returns for the content container (fields
  \<open>left, top, width, height\<close> of the source). \<open>contentRef.current\<close> is a value of
  type \<open>domrect option\<close>, \<open>None\<close> when no container is mounted.
\<close>

record domrect =
  rectLeft :: real
  rectTop :: real
  rectWidth :: real
  rectHeight :: real

datatype view_mode = Single | Book

datatype flip = FlipNext | FlipPrev

datatype drag_mode = PanDrag | SelectDrag

text \<open>
  The hooks of the component. \<open>hasDocument\<close> stands for \<open>projectId && filename\<close>;
  \<open>loading\<close> and \<open>error\<close>, which only select what is rendered, are left out.
  \<open>flipTimers\<close> are the pending timers created by \<open>setTimeout\<close> in the flip handlers,
  each with its id, its direction and the \<open>totalSpreads\<close> its callback closed over;
  \<open>flipTimeoutRef\<close> holds the id of the last one created and \<open>nextTimerId\<close> the next
  fresh id. \<open>dragEndTimers\<close> counts the pending 50 ms timers set by \<open>handleMouseUp\<close>.
  \<open>requests\<close> is the log of the page numbers requested from the thumbnail
  endpoint (\<open>api.get(getThumbUrl(page))\<close>), oldest first.
\<close>

record viewer =
  hasDocument :: bool
  currentPage :: int
  totalPages :: int
  pageCache :: "int \<rightharpoonup> string"
  viewMode :: view_mode
  flipping :: "flip option"
  flipTimeoutRef :: "nat option"
  flipTimers :: "(nat \<times> flip \<times> int) list"
  nextTimerId :: nat
  zoom :: real
  pan :: point
  isDragging :: bool
  selectionRect :: "selection option"
  dragStartRef :: point
  panStartRef :: point
  didDragRef :: bool
  dragModeRef :: "drag_mode option"
  dragEndTimers :: nat
  currentSpread :: int
  requests :: "int list"

definition origin :: point where
  "origin = \<lparr>px = 0, py = 0\<rparr>"

text \<open>The state of a freshly mounted component (the initial values of the hooks).\<close>

definition initial :: "bool \<Rightarrow> viewer" where
  "initial doc =
     \<lparr>hasDocument = doc, currentPage = 1, totalPages = 0, pageCache = Map.empty,
      viewMode = Book, flipping = None, flipTimeoutRef = None, flipTimers = [],
      nextTimerId = 1, zoom = 1, pan = origin, isDragging = False,
      selectionRect = None, dragStartRef = origin, panStartRef = origin,
      didDragRef = False, dragModeRef = None, dragEndTimers = 0, currentSpread = 0,
      requests = []\<rparr>"

subsection \<open>Zoom handlers\<close>

definition resetZoom :: "viewer \<Rightarrow> viewer" where
  "resetZoom s = s\<lparr>zoom := 1, pan := origin, selectionRect := None\<rparr>"

text \<open>
  \<open>handleWheel\<close>: the event gives \<open>clientX\<close>, \<open>clientY\<close> and \<open>deltaY\<close>. Without a
  container the handler returns at once. \<open>cursorX\<close> and \<open>cursorY\<close> are fractions of
  the container's size, multiplied by that size again in the pan formula.
\<close>

definition handleWheel :: "real \<Rightarrow> real \<Rightarrow> real \<Rightarrow> domrect option \<Rightarrow> viewer \<Rightarrow> viewer" where
  "handleWheel clientX clientY deltaY container s =
     (case container of
        None \<Rightarrow> s
      | Some rect \<Rightarrow>
          let cursorX = (clientX - rectLeft rect) / rectWidth rect;
              cursorY = (clientY - rectTop rect) / rectHeight rect;
              prevZoom = zoom s;
              delta = (if deltaY > 0 then - ZOOM_STEP else ZOOM_STEP);
              newZoom = min MAX_ZOOM (max MIN_ZOOM (prevZoom + delta))
          in if newZoom = MIN_ZOOM then s\<lparr>pan := origin, zoom := newZoom\<rparr>
             else if newZoom \<noteq> prevZoom then
               let zoomRatio = newZoom / prevZoom;
                   prevPan = pan s
               in s\<lparr>pan := \<lparr>px = cursorX * rectWidth rect * (1 - zoomRatio) + px prevPan * zoomRatio,
                             py = cursorY * rectHeight rect * (1 - zoomRatio) + py prevPan * zoomRatio\<rparr>,
                     zoom := newZoom\<rparr>
             else s\<lparr>zoom := newZoom\<rparr>)"

definition handleDoubleClick :: "viewer \<Rightarrow> viewer" where
  "handleDoubleClick s = resetZoom s"

text \<open>The click handlers of the zoom-out and zoom-in buttons of the header.\<close>

definition zoomOutClick :: "viewer \<Rightarrow> viewer" where
  "zoomOutClick s =
     (let nz = max MIN_ZOOM (zoom s - ZOOM_STEP * 2)
      in if nz = MIN_ZOOM then s\<lparr>pan := origin, zoom := nz\<rparr> else s\<lparr>zoom := nz\<rparr>)"

definition zoomInClick :: "viewer \<Rightarrow> viewer" where
  "zoomInClick s = s\<lparr>zoom := min MAX_ZOOM (zoom s + ZOOM_STEP * 2)\<rparr>"

subsection \<open>Mouse handlers: Ctrl+drag pans, a plain drag selects an area\<close>

text \<open>
  \<open>handleMouseDown\<close>: \<open>modifier\<close> is \<open>e.ctrlKey || e.metaKey\<close>.
\<close>

definition handleMouseDown :: "real \<Rightarrow> real \<Rightarrow> bool \<Rightarrow> domrect option \<Rightarrow> viewer \<Rightarrow> viewer" where
  "handleMouseDown clientX clientY modifier container s =
     (case container of
        None \<Rightarrow> s
      | Some rect \<Rightarrow>
          let s1 = s\<lparr>didDragRef := False, dragStartRef := \<lparr>px = clientX, py = clientY\<rparr>\<rparr>
          in if modifier then
               s1\<lparr>dragModeRef := Some PanDrag, isDragging := True, panStartRef := pan s\<rparr>
             else
               s1\<lparr>dragModeRef := Some SelectDrag, isDragging := True,
                   selectionRect := Some \<lparr>startX = clientX - rectLeft rect,
                                           startY = clientY - rectTop rect,
                                           selX = clientX - rectLeft rect,
                                           selY = clientY - rectTop rect,
                                           selW = 0, selH = 0\<rparr>\<rparr>)"

definition handleMouseMove :: "real \<Rightarrow> real \<Rightarrow> domrect option \<Rightarrow> viewer \<Rightarrow> viewer" where
  "handleMouseMove clientX clientY container s =
     (if \<not> isDragging s then s
      else
        let dx = clientX - px (dragStartRef s);
            dy = clientY - py (dragStartRef s);
            s1 = (if \<bar>dx\<bar> > 5 \<or> \<bar>dy\<bar> > 5 then s\<lparr>didDragRef := True\<rparr> else s)
        in if dragModeRef s1 = Some PanDrag then
             s1\<lparr>pan := \<lparr>px = px (panStartRef s1) + dx, py = py (panStartRef s1) + dy\<rparr>\<rparr>
           else
             (case container of
                None \<Rightarrow> s1
              | Some rect \<Rightarrow>
                  let curX = clientX - rectLeft rect;
                      curY = clientY - rectTop rect
                  in (case selectionRect s1 of
                        None \<Rightarrow> s1
                      | Some prev \<Rightarrow>
                          s1\<lparr>selectionRect :=
                               Some (prev\<lparr>selX := min (startX prev) curX,
                                          selY := min (startY prev) curY,
                                          selW := \<bar>curX - startX prev\<bar>,
                                          selH := \<bar>curY - startY prev\<bar>\<rparr>)\<rparr>)))"

text \<open>
  \<open>handleMouseUp\<close>, with the zoom to the selected area as a function of its own. The
  callback of the timer it sets, which clears \<open>isDragging\<close> 50 ms later, is
  \<open>dragEndTimeout\<close>.
\<close>

definition zoomToSelection :: "selection \<Rightarrow> domrect \<Rightarrow> viewer \<Rightarrow> viewer" where
  "zoomToSelection sel rect s =
     (let scaleX = rectWidth rect / selW sel;
          scaleY = rectHeight rect / selH sel;
          zoomRatio = min scaleX scaleY;
          newZoom = min MAX_ZOOM (zoom s * zoomRatio);
          actualRatio = newZoom / zoom s;
          selCenterX = selX sel + selW sel / 2;
          selCenterY = selY sel + selH sel / 2
      in s\<lparr>pan := \<lparr>px = (rectWidth rect / 2) - actualRatio * (selCenterX - px (pan s)),
                    py = (rectHeight rect / 2) - actualRatio * (selCenterY - py (pan s))\<rparr>,
            zoom := newZoom\<rparr>)"

definition handleMouseUp :: "domrect option \<Rightarrow> viewer \<Rightarrow> viewer" where
  "handleMouseUp container s =
     (let s1 = (case selectionRect s of
                  None \<Rightarrow> s
                | Some sel \<Rightarrow>
                    if dragModeRef s = Some SelectDrag \<and> didDragRef s \<and> selW sel > 20 \<and> selH sel > 20
                    then (case container of None \<Rightarrow> s | Some rect \<Rightarrow> zoomToSelection sel rect s)
                    else s)
      in s1\<lparr>selectionRect := None, dragModeRef := None,
            dragEndTimers := Suc (dragEndTimers s1)\<rparr>)"

definition dragEndTimeout :: "viewer \<Rightarrow> viewer" where
  "dragEndTimeout s =
     (if dragEndTimers s = 0 then s
      else s\<lparr>isDragging := False, dragEndTimers := dragEndTimers s - 1\<rparr>)"

subsection \<open>Book mode: spreads\<close>

text \<open>\<open>totalSpreads\<close> is \<open>Math.ceil((totalPages + 1) / 2)\<close>.\<close>

definition totalSpreads :: "int \<Rightarrow> int" where
  "totalSpreads tp = \<lceil>(of_int tp + 1) / (2 :: real)\<rceil>"

record spread =
  left :: "int option"
  right :: "int option"

text \<open>\<open>getSpreadPages\<close> reads \<open>totalPages\<close>, here its first argument.\<close>

definition getSpreadPages :: "int \<Rightarrow> int \<Rightarrow> spread" where
  "getSpreadPages tp spr =
     (if spr = 0 then \<lparr>left = None, right = Some 1\<rparr>
      else
        let leftPage = spr * 2;
            rightPage = spr * 2 + 1
        in \<lparr>left = (if leftPage \<le> tp then Some leftPage else None),
            right = (if rightPage \<le> tp then Some rightPage else None)\<rparr>)"

text \<open>
  A page number used as a condition (\<open>if (left)\<close>, \<open>left || right || 1\<close>) counts as
  true when it is neither \<open>null\<close> nor \<open>0\<close>. \<open>orElse v d\<close> is \<open>v || d\<close>.
\<close>

definition orElse :: "int option \<Rightarrow> int \<Rightarrow> int" where
  "orElse v d = (case v of None \<Rightarrow> d | Some n \<Rightarrow> if n \<noteq> 0 then n else d)"

subsection \<open>Fetching thumbnails\<close>

text \<open>
  \<open>fetchThumb\<close>. The request \<open>api.get\<close> is the parameter \<open>api\<close>: \<open>api page = Some d\<close> when
  the request answers with the thumbnail \<open>d\<close>, \<open>None\<close> when it throws. \<open>fetchThumb\<close> is
  memoised by \<open>useCallback\<close> with the dependencies \<open>projectId, filename, totalPages,
  getThumbUrl\<close>, so the \<open>pageCache\<close> it reads is the one of the render that created
  it: the parameter \<open>closureCache\<close>. The cache it writes (through \<open>setPageCache\<close>) is the
  one of the state. A cached thumbnail counts when it is not the empty string. The
  result is the returned value and the state after the request.
\<close>

definition fetchThumb ::
  "(int \<Rightarrow> string option) \<Rightarrow> (int \<rightharpoonup> string) \<Rightarrow> int \<Rightarrow> viewer \<Rightarrow> string option \<times> viewer" where
  "fetchThumb api closureCache page s =
     (if \<not> hasDocument s \<or> page < 1 \<or> page > totalPages s then (None, s)
      else
        (case closureCache page of
           Some d \<Rightarrow>
             if d \<noteq> [] then (Some d, s)
             else
               (case api page of
                  Some data \<Rightarrow>
                    (Some data, s\<lparr>pageCache := (pageCache s)(page \<mapsto> data),
                                   requests := requests s @ [page]\<rparr>)
                | None \<Rightarrow> (None, s\<lparr>requests := requests s @ [page]\<rparr>))
         | None \<Rightarrow>
             (case api page of
                Some data \<Rightarrow>
                  (Some data, s\<lparr>pageCache := (pageCache s)(page \<mapsto> data),
                                 requests := requests s @ [page]\<rparr>)
              | None \<Rightarrow> (None, s\<lparr>requests := requests s @ [page]\<rparr>))))"

text \<open>\<open>if (p) fetchThumb(p)\<close> for a page of a spread.\<close>

definition fetchIf ::
  "(int \<Rightarrow> string option) \<Rightarrow> (int \<rightharpoonup> string) \<Rightarrow> int option \<Rightarrow> viewer \<Rightarrow> viewer" where
  "fetchIf api closureCache v s =
     (case v of
        None \<Rightarrow> s
      | Some p \<Rightarrow> if p \<noteq> 0 then snd (fetchThumb api closureCache p s) else s)"

text \<open>
  The effect that loads the thumbnails of the current view and of its neighbours. The
  requests are taken in the order the effect issues them.
\<close>

definition loadPages ::
  "(int \<Rightarrow> string option) \<Rightarrow> (int \<rightharpoonup> string) \<Rightarrow> viewer \<Rightarrow> viewer" where
  "loadPages api closureCache s =
     (if viewMode s = Single then
        let s1 = snd (fetchThumb api closureCache (currentPage s) s);
            s2 = snd (fetchThumb api closureCache (currentPage s + 1) s1)
        in snd (fetchThumb api closureCache (currentPage s - 1) s2)
      else
        let cur = getSpreadPages (totalPages s) (currentSpread s);
            s1 = fetchIf api closureCache (left cur) s;
            s2 = fetchIf api closureCache (right cur) s1;
            nxt = getSpreadPages (totalPages s) (currentSpread s + 1);
            prv = getSpreadPages (totalPages s) (currentSpread s - 1);
            s3 = fetchIf api closureCache (left nxt) s2;
            s4 = fetchIf api closureCache (right nxt) s3;
            s5 = fetchIf api closureCache (left prv) s4
        in fetchIf api closureCache (right prv) s5)"

definition loadEffect ::
  "(int \<Rightarrow> string option) \<Rightarrow> (int \<rightharpoonup> string) \<Rightarrow> viewer \<Rightarrow> viewer" where
  "loadEffect api closureCache s =
     (if \<not> hasDocument s \<or> totalPages s = 0 then s else loadPages api closureCache s)"

subsection \<open>Navigation\<close>

definition goNextSingle :: "viewer \<Rightarrow> viewer" where
  "goNextSingle s = s\<lparr>currentPage := min (totalPages s) (currentPage s + 1)\<rparr>"

definition goPrevSingle :: "viewer \<Rightarrow> viewer" where
  "goPrevSingle s = s\<lparr>currentPage := max 1 (currentPage s - 1)\<rparr>"

definition goFirstSingle :: "viewer \<Rightarrow> viewer" where
  "goFirstSingle s = s\<lparr>currentPage := 1\<rparr>"

definition goLastSingle :: "viewer \<Rightarrow> viewer" where
  "goLastSingle s = s\<lparr>currentPage := totalPages s\<rparr>"

text \<open>\<open>clearTimeout(i)\<close> removes the pending timer with the id \<open>i\<close>, if there is one.\<close>

definition clearTimeout :: "nat \<Rightarrow> (nat \<times> flip \<times> int) list \<Rightarrow> (nat \<times> flip \<times> int) list" where
  "clearTimeout i ts = filter (\<lambda>t. fst t \<noteq> i) ts"

text \<open>
  \<open>startFlip\<close> is the common tail of \<open>goNextSpread\<close> and \<open>goPrevSpread\<close>:
  \<open>setFlipping(d)\<close>, \<open>clearTimeout\<close> of the timer in \<open>flipTimeoutRef\<close>, and a new timer
  whose callback closes over the current \<open>totalSpreads\<close>.
\<close>

definition startFlip :: "flip \<Rightarrow> viewer \<Rightarrow> viewer" where
  "startFlip d s =
     (let cleared = (case flipTimeoutRef s of
                       None \<Rightarrow> flipTimers s
                     | Some i \<Rightarrow> clearTimeout i (flipTimers s));
          i = nextTimerId s
      in s\<lparr>flipping := Some d,
            flipTimers := cleared @ [(i, d, totalSpreads (totalPages s))],
            flipTimeoutRef := Some i,
            nextTimerId := Suc i\<rparr>)"

definition goNextSpread :: "viewer \<Rightarrow> viewer" where
  "goNextSpread s =
     (if currentSpread s \<ge> totalSpreads (totalPages s) - 1 \<or> flipping s \<noteq> None then s
      else startFlip FlipNext s)"

definition goPrevSpread :: "viewer \<Rightarrow> viewer" where
  "goPrevSpread s =
     (if currentSpread s \<le> 0 \<or> flipping s \<noteq> None then s
      else startFlip FlipPrev s)"

text \<open>
  The callback of a flip timer, with the direction \<open>d\<close> and the \<open>totalSpreads\<close> it closed
  over; and the firing of the pending timer \<open>i\<close>, which removes it and runs its callback
  (a timer that is not pending does not fire).
\<close>

definition flipCallback :: "flip \<Rightarrow> int \<Rightarrow> viewer \<Rightarrow> viewer" where
  "flipCallback d ts s =
     (case d of
        FlipNext \<Rightarrow> s\<lparr>currentSpread := min (ts - 1) (currentSpread s + 1), flipping := None\<rparr>
      | FlipPrev \<Rightarrow> s\<lparr>currentSpread := max 0 (currentSpread s - 1), flipping := None\<rparr>)"

definition flipTimeout :: "nat \<Rightarrow> viewer \<Rightarrow> viewer" where
  "flipTimeout i s =
     (case find (\<lambda>t. fst t = i) (flipTimers s) of
        None \<Rightarrow> s
      | Some (j, d, ts) \<Rightarrow> flipCallback d ts (s\<lparr>flipTimers := clearTimeout i (flipTimers s)\<rparr>))"

definition goFirstSpread :: "viewer \<Rightarrow> viewer" where
  "goFirstSpread s = s\<lparr>currentSpread := 0, flipping := None\<rparr>"

definition goLastSpread :: "viewer \<Rightarrow> viewer" where
  "goLastSpread s = s\<lparr>currentSpread := totalSpreads (totalPages s) - 1, flipping := None\<rparr>"

text \<open>
  \<open>handleModeChange\<close>: \<open>newMode\<close> is \<open>null\<close> when the active toggle is clicked again.
  \<open>Math.floor(currentPage / 2)\<close> is \<open>div\<close> on integers.
\<close>

definition handleModeChange :: "view_mode option \<Rightarrow> viewer \<Rightarrow> viewer" where
  "handleModeChange newMode s =
     (case newMode of
        None \<Rightarrow> s
      | Some Book \<Rightarrow>
          (if currentPage s = 1 then s\<lparr>currentSpread := 0, viewMode := Book\<rparr>
           else s\<lparr>currentSpread := currentPage s div 2, viewMode := Book\<rparr>)
      | Some Single \<Rightarrow>
          (let sp = getSpreadPages (totalPages s) (currentSpread s)
           in s\<lparr>currentPage := orElse (left sp) (orElse (right sp) 1),
                 viewMode := Single\<rparr>))"

text \<open>
  The effect run when \<open>projectId\<close> or \<open>filename\<close> changes, and the arrival of the answer
  to its \<open>pdf-info\<close> request (\<open>res.data.page_count || 0\<close>, \<open>None\<close> for a missing count).
\<close>

definition documentChanged :: "bool \<Rightarrow> viewer \<Rightarrow> viewer" where
  "documentChanged doc s =
     (if \<not> doc then s\<lparr>hasDocument := doc\<rparr>
      else resetZoom (s\<lparr>hasDocument := doc, currentPage := 1, currentSpread := 0,
                         totalPages := 0, pageCache := Map.empty, flipping := None\<rparr>))"

definition pdfInfoLoaded :: "int option \<Rightarrow> viewer \<Rightarrow> viewer" where
  "pdfInfoLoaded page_count s =
     s\<lparr>totalPages := (case page_count of None \<Rightarrow> 0 | Some n \<Rightarrow> n)\<rparr>"

subsection \<open>Events and effects\<close>

text \<open>
  The events the mounted component reacts to: the listeners and \<open>onClick\<close> handlers of
  the rendered elements, the timers, a change of the props and the answer to the
  \<open>pdf-info\<close> request.
\<close>

datatype event =
    Wheel real real real "domrect option"
  | DoubleClick
  | ZoomOutButton
  | ZoomInButton
  | ResetButton
  | MouseDown real real bool "domrect option"
  | MouseMove real real "domrect option"
  | MouseUp "domrect option"
  | DragEndTimeout
  | FirstPageButton
  | PrevPageButton
  | NextPageButton
  | LastPageButton
  | FirstSpreadButton
  | PrevSpreadButton
  | NextSpreadButton
  | LastSpreadButton
  | FlipTimeout nat
  | ModeToggle "view_mode option"
  | DocumentChanged bool
  | PdfInfoLoaded "int option"

text \<open>
  \<open>dispatch\<close> runs the handler of an event. A button reacts only where it is rendered
  and not \<open>disabled\<close>: the zoom-out button for \<open>zoom > MIN_ZOOM\<close>, the zoom-in button for
  \<open>zoom < MAX_ZOOM\<close>, the reset button for \<open>zoom > 1\<close>, the navigation buttons for
  \<open>totalPages > 1\<close> in their mode and under their own \<open>disabled\<close> condition. The
  \<open>mousemove\<close> and \<open>mouseup\<close> listeners are attached to the window while \<open>isDragging\<close>.
\<close>

definition dispatch :: "event \<Rightarrow> viewer \<Rightarrow> viewer" where
  "dispatch e s =
     (case e of
        Wheel clientX clientY deltaY container \<Rightarrow> handleWheel clientX clientY deltaY container s
      | DoubleClick \<Rightarrow> handleDoubleClick s
      | ZoomOutButton \<Rightarrow> if zoom s \<le> MIN_ZOOM then s else zoomOutClick s
      | ZoomInButton \<Rightarrow> if zoom s \<ge> MAX_ZOOM then s else zoomInClick s
      | ResetButton \<Rightarrow> if zoom s > 1 then resetZoom s else s
      | MouseDown clientX clientY modifier container \<Rightarrow>
          handleMouseDown clientX clientY modifier container s
      | MouseMove clientX clientY container \<Rightarrow>
          if isDragging s then handleMouseMove clientX clientY container s else s
      | MouseUp container \<Rightarrow> if isDragging s then handleMouseUp container s else s
      | DragEndTimeout \<Rightarrow> dragEndTimeout s
      | FirstPageButton \<Rightarrow>
          if totalPages s > 1 \<and> viewMode s = Single \<and> currentPage s \<noteq> 1
          then goFirstSingle s else s
      | PrevPageButton \<Rightarrow>
          if totalPages s > 1 \<and> viewMode s = Single \<and> currentPage s \<noteq> 1
          then goPrevSingle s else s
      | NextPageButton \<Rightarrow>
          if totalPages s > 1 \<and> viewMode s = Single \<and> currentPage s \<noteq> totalPages s
          then goNextSingle s else s
      | LastPageButton \<Rightarrow>
          if totalPages s > 1 \<and> viewMode s = Single \<and> currentPage s \<noteq> totalPages s
          then goLastSingle s else s
      | FirstSpreadButton \<Rightarrow>
          if totalPages s > 1 \<and> viewMode s = Book \<and> currentSpread s \<noteq> 0
          then goFirstSpread s else s
      | PrevSpreadButton \<Rightarrow>
          if totalPages s > 1 \<and> viewMode s = Book
             \<and> \<not> (currentSpread s = 0 \<or> flipping s \<noteq> None)
          then goPrevSpread s else s
      | NextSpreadButton \<Rightarrow>
          if totalPages s > 1 \<and> viewMode s = Book
             \<and> \<not> (currentSpread s \<ge> totalSpreads (totalPages s) - 1 \<or> flipping s \<noteq> None)
          then goNextSpread s else s
      | LastSpreadButton \<Rightarrow>
          if totalPages s > 1 \<and> viewMode s = Book
             \<and> \<not> currentSpread s \<ge> totalSpreads (totalPages s) - 1
          then goLastSpread s else s
      | FlipTimeout i \<Rightarrow> flipTimeout i s
      | ModeToggle newMode \<Rightarrow> handleModeChange newMode s
      | DocumentChanged doc \<Rightarrow> documentChanged doc s
      | PdfInfoLoaded page_count \<Rightarrow> pdfInfoLoaded page_count s)"

text \<open>
  The effects run after the render that follows an event. \<open>resetZoom\<close> runs when
  \<open>currentPage\<close> or \<open>viewMode\<close> differ from the render before; the effect that loads the
  thumbnails runs when one of its dependencies differs. Renders with unchanged
  dependencies run neither.
\<close>

definition loadDue :: "viewer \<Rightarrow> viewer \<Rightarrow> bool" where
  "loadDue old new \<longleftrightarrow>
     hasDocument new \<noteq> hasDocument old \<or> totalPages new \<noteq> totalPages old
     \<or> currentPage new \<noteq> currentPage old \<or> currentSpread new \<noteq> currentSpread old
     \<or> viewMode new \<noteq> viewMode old"

definition afterRender ::
  "(int \<Rightarrow> string option) \<Rightarrow> (int \<rightharpoonup> string) \<Rightarrow> viewer \<Rightarrow> viewer \<Rightarrow> viewer" where
  "afterRender api closureCache old new =
     (let r = (if currentPage new \<noteq> currentPage old \<or> viewMode new \<noteq> viewMode old
               then resetZoom new else new)
      in if loadDue old new then loadEffect api closureCache r else r)"

text \<open>
  A change of \<open>projectId\<close> or \<open>filename\<close> changes the dependencies of two effects, which
  run after the same render: the reset \<open>documentChanged\<close> and the loading effect. The
  latter still reads the page, the spread and the page count of the document before,
  and what its requests answer is written to the cache the reset has emptied.
\<close>

definition documentCommit ::
  "(int \<Rightarrow> string option) \<Rightarrow> (int \<rightharpoonup> string) \<Rightarrow> bool \<Rightarrow> viewer \<Rightarrow> viewer" where
  "documentCommit api closureCache doc s =
     (if \<not> doc then documentChanged doc s
      else
        let fetched = loadEffect api closureCache (s\<lparr>hasDocument := doc, pageCache := Map.empty\<rparr>)
        in (documentChanged doc s)\<lparr>pageCache := pageCache fetched, requests := requests fetched\<rparr>)"

definition step ::
  "(int \<Rightarrow> string option) \<Rightarrow> (int \<rightharpoonup> string) \<Rightarrow> event \<Rightarrow> viewer \<Rightarrow> viewer" where
  "step api closureCache e s =
     afterRender api closureCache s
       (case e of
          DocumentChanged doc \<Rightarrow> documentCommit api closureCache doc s
        | _ \<Rightarrow> dispatch e s)"

text \<open>
  The states the component can be in: those reached from a freshly mounted one by
  events, whatever the thumbnail requests answer.
\<close>

inductive reachable :: "viewer \<Rightarrow> bool" where
  reachable_initial: "reachable (initial doc)"
| reachable_step: "reachable s \<Longrightarrow> reachable (step api closureCache e s)"

text \<open>The invariant of the transform: the zoom in \<open>[1, 8]\<close>, and no pan at zoom 1.\<close>

definition transformOK :: "viewer \<Rightarrow> bool" where
  "transformOK s \<longleftrightarrow> 1 \<le> zoom s \<and> zoom s \<le> 8 \<and> (zoom s = 1 \<longrightarrow> pan s = origin)"

subsection \<open>Auxiliary definitions for the properties\<close>

text \<open>The zoom a wheel event leads to from the zoom \<open>z0\<close>, as \<open>handleWheel\<close> computes it.\<close>

definition wheelZoom :: "real \<Rightarrow> real \<Rightarrow> real" where
  "wheelZoom deltaY z0 = min 8 (max 1 (z0 + (if deltaY > 0 then - (3 / 10) else 3 / 10)))"

text \<open>A sample container of 800 by 600 pixels at the top left corner of the window.\<close>

definition viewport800 :: domrect where
  "viewport800 = \<lparr>rectLeft = 0, rectTop = 0, rectWidth = 800, rectHeight = 600\<rparr>"

text \<open>
  A plain drag over that container from \<open>(100, 100)\<close> to \<open>(200, 180)\<close>, which selects
  100 by 80 pixels, and the selection rectangle it leaves in the state.
\<close>

definition selected100x80 :: viewer where
  "selected100x80 =
     handleMouseMove 200 180 (Some viewport800)
       (handleMouseDown 100 100 False (Some viewport800) (initial True))"

definition selection100x80 :: selection where
  "selection100x80 = \<lparr>startX = 100, startY = 100, selX = 100, selY = 100, selW = 100, selH = 80\<rparr>"

text \<open>A document of ten pages shown in single mode at page 5.\<close>

definition single5of10 :: viewer where
  "single5of10 = (initial True)\<lparr>totalPages := 10, currentPage := 5, viewMode := Single\<rparr>"

text \<open>\<open>onlyFetched s t\<close>: \<open>t\<close> differs from \<open>s\<close> in the page cache and the request log at most.\<close>

definition onlyFetched :: "viewer \<Rightarrow> viewer \<Rightarrow> bool" where
  "onlyFetched s t \<longleftrightarrow> t = s\<lparr>pageCache := pageCache t, requests := requests t\<rparr>"

text \<open>
  The selection rectangle, if there is one, is smaller than the container in both
  dimensions.
\<close>

definition selectionInside :: "domrect option \<Rightarrow> viewer \<Rightarrow> bool" where
  "selectionInside container s =
     (case selectionRect s of
        None \<Rightarrow> True
      | Some sel \<Rightarrow>
          (case container of
             None \<Rightarrow> True
           | Some rect \<Rightarrow> selW sel < rectWidth rect \<and> selH sel < rectHeight rect))"

text \<open>A thumbnail endpoint whose every request fails.\<close>

definition offline :: "int \<Rightarrow> string option" where
  "offline page = None"

text \<open>\<open>sameView s t\<close>: the dependencies of the loading effect are the same in \<open>s\<close> and \<open>t\<close>.\<close>

definition sameView :: "viewer \<Rightarrow> viewer \<Rightarrow> bool" where
  "sameView s t \<longleftrightarrow>
     hasDocument t = hasDocument s \<and> totalPages t = totalPages s \<and> currentPage t = currentPage s
     \<and> currentSpread t = currentSpread s \<and> viewMode t = viewMode s"

text \<open>
  A freshly mounted viewer after the pointer went down at \<open>(10, 10)\<close> with Ctrl held
  and moved to \<open>(50, 10)\<close>; and one after a wheel notch of zoom-in at \<open>(400, 300)\<close>.
\<close>

definition ctrlDragged :: viewer where
  "ctrlDragged =
     step offline Map.empty (MouseMove 50 10 (Some viewport800))
       (step offline Map.empty (MouseDown 10 10 True (Some viewport800)) (initial True))"

definition wheelZoomed :: viewer where
  "wheelZoomed = step offline Map.empty (Wheel 400 300 (- 100) (Some viewport800)) (initial True)"

text \<open>
  A pointer gesture: the pointer goes down at \<open>(x0, y0)\<close>, moves through the positions
  \<open>moves\<close> and goes up. Each event comes with the container it finds.
\<close>

definition gesture ::
  "(int \<Rightarrow> string option) \<Rightarrow> (int \<rightharpoonup> string) \<Rightarrow> real \<Rightarrow> real \<Rightarrow> bool \<Rightarrow> domrect option
     \<Rightarrow> (real \<times> real \<times> domrect option) list \<Rightarrow> domrect option \<Rightarrow> viewer \<Rightarrow> viewer" where
  "gesture api closureCache x0 y0 modifier c0 moves cu s =
     step api closureCache (MouseUp cu)
       (foldl (\<lambda>t (x, y, c). step api closureCache (MouseMove x y c) t)
          (step api closureCache (MouseDown x0 y0 modifier c0) s) moves)"

text \<open>The moves of a click: none further than 5 pixels from the start in either axis.\<close>

definition withinClick :: "real \<Rightarrow> real \<Rightarrow> (real \<times> real \<times> domrect option) list \<Rightarrow> bool" where
  "withinClick x0 y0 moves \<longleftrightarrow> (\<forall>(x, y, c) \<in> set moves. \<bar>x - x0\<bar> \<le> 5 \<and> \<bar>y - y0\<bar> \<le> 5)"

text \<open>The moves of a gesture, handled one after the other.\<close>

definition moveAll :: "(real \<times> real \<times> domrect option) list \<Rightarrow> viewer \<Rightarrow> viewer" where
  "moveAll moves s = foldl (\<lambda>t (x, y, c). handleMouseMove x y c t) s moves"

text \<open>While the pointer stays within the click distance, a select drag keeps the transform.\<close>

definition clickPending :: "real \<Rightarrow> real \<Rightarrow> viewer \<Rightarrow> viewer \<Rightarrow> bool" where
  "clickPending x0 y0 s t \<longleftrightarrow>
     zoom t = zoom s \<and> pan t = pan s \<and> dragModeRef t = Some SelectDrag \<and> \<not> didDragRef t
     \<and> dragStartRef t = \<lparr>px = x0, py = y0\<rparr>"

text \<open>A pan drag: the pan is the pan at pointer-down plus the displacement.\<close>

definition panPending :: "real \<Rightarrow> real \<Rightarrow> viewer \<Rightarrow> viewer \<Rightarrow> bool" where
  "panPending x0 y0 s t \<longleftrightarrow>
     zoom t = zoom s \<and> dragModeRef t = Some PanDrag \<and> isDragging t
     \<and> panStartRef t = pan s \<and> dragStartRef t = \<lparr>px = x0, py = y0\<rparr>"

text \<open>
  Two clicks that move 3 pixels before the pointer goes up: one with Ctrl on a freshly
  mounted viewer, one without on a zoomed one.
\<close>

definition ctrlClick :: viewer where
  "ctrlClick =
     gesture offline Map.empty 100 100 True (Some viewport800) [(103, 100, Some viewport800)]
       (Some viewport800) (initial True)"

definition plainClick :: viewer where
  "plainClick =
     gesture offline Map.empty 100 100 False (Some viewport800) [(103, 100, Some viewport800)]
       (Some viewport800) wheelZoomed"

text \<open>
  At most one flip timer is pending, and it is the one \<open>flipTimeoutRef\<close> refers to.
\<close>

definition flipTimersOK :: "viewer \<Rightarrow> bool" where
  "flipTimersOK s \<longleftrightarrow>
     length (flipTimers s) \<le> 1 \<and> (\<forall>t \<in> set (flipTimers s). flipTimeoutRef s = Some (fst t))"

text \<open>\<open>sameTimers s t\<close>: the flip timers and the reference to the last one are the same.\<close>

definition sameTimers :: "viewer \<Rightarrow> viewer \<Rightarrow> bool" where
  "sameTimers s t \<longleftrightarrow> flipTimers t = flipTimers s \<and> flipTimeoutRef t = flipTimeoutRef s"

text \<open>
  A document of ten pages in book mode at the cover; the same after \<open>next\<close> was
  requested; and after the jump to the last spread was clicked during that flip.
\<close>

definition book10 :: viewer where
  "book10 = step offline Map.empty (PdfInfoLoaded (Some 10)) (initial True)"

definition flipStarted :: viewer where
  "flipStarted = step offline Map.empty NextSpreadButton book10"

definition jumpedLast :: viewer where
  "jumpedLast = step offline Map.empty LastSpreadButton flipStarted"

text \<open>
  The same document after two completed flips, at the spread 2; after \<open>next\<close> was
  requested there; and after the jump to the first spread was clicked during that flip.
\<close>

definition spreadOne :: viewer where
  "spreadOne = step offline Map.empty (FlipTimeout 1) flipStarted"

definition flipFromOne :: viewer where
  "flipFromOne = step offline Map.empty NextSpreadButton spreadOne"

definition spreadTwo :: viewer where
  "spreadTwo = step offline Map.empty (FlipTimeout 2) flipFromOne"

definition flipFromTwo :: viewer where
  "flipFromTwo = step offline Map.empty NextSpreadButton spreadTwo"

definition jumpedFirst :: viewer where
  "jumpedFirst = step offline Map.empty FirstSpreadButton flipFromTwo"

text \<open>
  Whether the request for \<open>page\<close> goes out when \<open>fetchThumb\<close> is called: the document is
  there, the page is in range and the cache the closure reads has no thumbnail for it.
\<close>

definition requestGoesOut :: "(int \<rightharpoonup> string) \<Rightarrow> int \<Rightarrow> viewer \<Rightarrow> bool" where
  "requestGoesOut closureCache page s \<longleftrightarrow>
     hasDocument s \<and> 1 \<le> page \<and> page \<le> totalPages s
     \<and> (closureCache page = None \<or> closureCache page = Some [])"

text \<open>The page \<open>p\<close> is shown by the current view: the page, or a page of the spread.\<close>

definition showsPage :: "viewer \<Rightarrow> int \<Rightarrow> bool" where
  "showsPage s p \<longleftrightarrow>
     (if viewMode s = Single then currentPage s = p
      else left (getSpreadPages (totalPages s) (currentSpread s)) = Some p
           \<or> right (getSpreadPages (totalPages s) (currentSpread s)) = Some p)"

text \<open>The requests a run of \<open>loadPages\<close> sends, in order.\<close>

definition wanted :: "(int \<rightharpoonup> string) \<Rightarrow> viewer \<Rightarrow> int option \<Rightarrow> int list" where
  "wanted cc s v =
     (case v of None \<Rightarrow> [] | Some p \<Rightarrow> if p \<noteq> 0 \<and> requestGoesOut cc p s then [p] else [])"

text \<open>\<open>sameStore s t\<close>: the page cache and the request log are the same in \<open>s\<close> and \<open>t\<close>.\<close>

definition sameStore :: "viewer \<Rightarrow> viewer \<Rightarrow> bool" where
  "sameStore s t \<longleftrightarrow> requests t = requests s \<and> pageCache t = pageCache s"

text \<open>A document of ten pages shown in single mode at page 4.\<close>

definition single4of10 :: viewer where
  "single4of10 = (initial True)\<lparr>totalPages := 10, currentPage := 4, viewMode := Single\<rparr>"

section \<open>Properties\<close>

subsection \<open>Spreads\<close>

lemma totalSpreads_div: "totalSpreads tp = (tp + 2) div 2"
proof -
  have "(of_int tp + 1) / (2::real) = of_int (tp + 1) / of_int 2" by simp
  then have "totalSpreads tp = - (- (tp + 1) div 2)"
    unfolding totalSpreads_def by (simp only: ceiling_divide_eq_div)
  then show ?thesis by linarith
qed

text \<open>
  Claim C9. For every page count and every spread other than the cover (in particular
  every spread \<open>s \<ge> 1\<close>), a non-null right page comes with a non-null left page; a null
  left page together with a non-null right page occurs at the cover spread 0 and only
  there.
\<close>

theorem spread_shapes:
  "(spr \<noteq> 0 \<longrightarrow> right (getSpreadPages tp spr) \<noteq> None \<longrightarrow> left (getSpreadPages tp spr) \<noteq> None) \<and>
   (left (getSpreadPages tp spr) = None \<and> right (getSpreadPages tp spr) \<noteq> None \<longleftrightarrow> spr = 0)"
  by (simp add: getSpreadPages_def Let_def)

theorem spread_shapes_witness:
  "(2::int) \<noteq> 0 \<and> right (getSpreadPages 5 2) = Some 5 \<and> left (getSpreadPages 5 2) \<noteq> None \<and>
   left (getSpreadPages 5 0) = None \<and> right (getSpreadPages 5 0) \<noteq> None"
  using spread_shapes [of 2 5] spread_shapes [of 0 5]
  by (simp add: getSpreadPages_def Let_def)

subsection \<open>Wheel zoom\<close>

lemma handleWheel_eq:
  "handleWheel clientX clientY deltaY (Some rect) s =
     (if wheelZoom deltaY (zoom s) = 1 then s\<lparr>pan := origin, zoom := wheelZoom deltaY (zoom s)\<rparr>
      else if wheelZoom deltaY (zoom s) \<noteq> zoom s then
        s\<lparr>pan := \<lparr>px = (clientX - rectLeft rect) / rectWidth rect * rectWidth rect
                        * (1 - wheelZoom deltaY (zoom s) / zoom s)
                      + px (pan s) * (wheelZoom deltaY (zoom s) / zoom s),
                  py = (clientY - rectTop rect) / rectHeight rect * rectHeight rect
                        * (1 - wheelZoom deltaY (zoom s) / zoom s)
                      + py (pan s) * (wheelZoom deltaY (zoom s) / zoom s)\<rparr>,
          zoom := wheelZoom deltaY (zoom s)\<rparr>
      else s\<lparr>zoom := wheelZoom deltaY (zoom s)\<rparr>)"
  unfolding handleWheel_def wheelZoom_def MIN_ZOOM_def MAX_ZOOM_def ZOOM_STEP_def Let_def option.case
  by (rule refl)

lemma wheel_zoom:
  "zoom (handleWheel clientX clientY deltaY (Some rect) s) = wheelZoom deltaY (zoom s)"
  by (simp add: handleWheel_eq)

lemma wheel_pan_unity:
  "wheelZoom deltaY (zoom s) = 1 \<Longrightarrow>
   pan (handleWheel clientX clientY deltaY (Some rect) s) = origin"
  by (simp add: handleWheel_eq)

lemma wheel_pan_same:
  "wheelZoom deltaY (zoom s) \<noteq> 1 \<Longrightarrow> wheelZoom deltaY (zoom s) = zoom s \<Longrightarrow>
   pan (handleWheel clientX clientY deltaY (Some rect) s) = pan s"
  by (simp add: handleWheel_eq)

lemma wheel_pan_changed:
  "wheelZoom deltaY (zoom s) \<noteq> 1 \<Longrightarrow> wheelZoom deltaY (zoom s) \<noteq> zoom s \<Longrightarrow>
   pan (handleWheel clientX clientY deltaY (Some rect) s) =
     \<lparr>px = (clientX - rectLeft rect) / rectWidth rect * rectWidth rect
             * (1 - wheelZoom deltaY (zoom s) / zoom s)
           + px (pan s) * (wheelZoom deltaY (zoom s) / zoom s),
      py = (clientY - rectTop rect) / rectHeight rect * rectHeight rect
             * (1 - wheelZoom deltaY (zoom s) / zoom s)
           + py (pan s) * (wheelZoom deltaY (zoom s) / zoom s)\<rparr>"
  by (simp add: handleWheel_eq)

lemma wheelZoom_gt1: "wheelZoom deltaY z0 > 1 \<Longrightarrow> z0 > 0"
  by (simp add: wheelZoom_def split: if_splits)

lemma wheelZoom_range: "1 \<le> wheelZoom deltaY z0 \<and> wheelZoom deltaY z0 \<le> 8"
  by (simp add: wheelZoom_def)

lemma anchor_fixed:
  fixes z0 z1 c p q :: real
  assumes "z0 \<noteq> 0" and "z0 * q + p = c"
  shows "z1 * q + (c * (1 - z1 / z0) + p * (z1 / z0)) = c"
proof -
  have c: "c = z0 * q + p" using assms by simp
  show ?thesis unfolding c using assms(1) by (simp add: field_simps)
qed

text \<open>
  Claim C5. A wheel event over a container of non-zero size, at the cursor
  \<open>(cx, cy)\<close> relative to the container, with the pan \<open>p\<close> and the zoom \<open>z0\<close> before,
  leads to the zoom \<open>z1\<close>, which is \<open>z0\<close> plus or minus the step clamped to \<open>[1, 8]\<close>.
  With \<open>r = z1 / z0\<close>: when \<open>z1 > 1\<close> the new pan is \<open>cursor * (1 - r) + p * r\<close> in each
  component, so that the content point \<open>q\<close> which the transform \<open>z * q + pan\<close> put at
  the cursor is still put there; when \<open>z1 = 1\<close> the new pan is \<open>(0, 0)\<close>.
\<close>

theorem wheel_pan_formula:
  assumes "rectWidth rect \<noteq> 0" and "rectHeight rect \<noteq> 0"
  shows "let s' = handleWheel clientX clientY deltaY (Some rect) s;
             cx = clientX - rectLeft rect;
             cy = clientY - rectTop rect;
             z0 = zoom s;
             z1 = zoom s';
             r = z1 / z0
         in z1 = min 8 (max 1 (z0 + (if deltaY > 0 then - (3 / 10) else 3 / 10))) \<and>
            (z1 > 1 \<longrightarrow>
               px (pan s') = cx * (1 - r) + px (pan s) * r \<and>
               py (pan s') = cy * (1 - r) + py (pan s) * r \<and>
               (\<forall>qx qy. z0 * qx + px (pan s) = cx \<and> z0 * qy + py (pan s) = cy \<longrightarrow>
                          z1 * qx + px (pan s') = cx \<and> z1 * qy + py (pan s') = cy)) \<and>
            (z1 = 1 \<longrightarrow> pan s' = origin)"
proof -
  define s' where "s' = handleWheel clientX clientY deltaY (Some rect) s"
  define cx where "cx = clientX - rectLeft rect"
  define cy where "cy = clientY - rectTop rect"
  define z1 where "z1 = wheelZoom deltaY (zoom s)"
  define r where "r = z1 / zoom s"
  have zs': "zoom s' = z1"
    unfolding s'_def z1_def by (rule wheel_zoom)
  have p1: "pan s' = origin" if "z1 = 1"
    using that unfolding s'_def z1_def by (rule wheel_pan_unity)
  have z0: "zoom s \<noteq> 0" if "z1 > 1"
    using wheelZoom_gt1 [of deltaY "zoom s"] that unfolding z1_def by simp
  have pxy: "px (pan s') = cx * (1 - r) + px (pan s) * r \<and>
             py (pan s') = cy * (1 - r) + py (pan s) * r"
    if gt: "z1 > 1"
  proof (cases "z1 = zoom s")
    case True
    have "r = 1" using True z0 [OF gt] by (simp add: r_def)
    moreover have "pan s' = pan s"
      unfolding s'_def using gt True unfolding z1_def by (intro wheel_pan_same) simp_all
    ultimately show ?thesis by simp
  next
    case False
    have "pan s' =
        \<lparr>px = (clientX - rectLeft rect) / rectWidth rect * rectWidth rect * (1 - r) + px (pan s) * r,
         py = (clientY - rectTop rect) / rectHeight rect * rectHeight rect * (1 - r) + py (pan s) * r\<rparr>"
      unfolding s'_def r_def using gt False unfolding z1_def
      by (intro wheel_pan_changed) simp_all
    then show ?thesis using assms by (simp add: cx_def cy_def)
  qed
  have fixed: "z1 * qx + px (pan s') = cx \<and> z1 * qy + py (pan s') = cy"
    if gt: "z1 > 1" and q: "zoom s * qx + px (pan s) = cx" "zoom s * qy + py (pan s) = cy"
    for qx qy
    using pxy [OF gt] anchor_fixed [OF z0 [OF gt] q(1), of z1]
      anchor_fixed [OF z0 [OF gt] q(2), of z1]
    by (simp add: r_def)
  have "z1 = min 8 (max 1 (zoom s + (if deltaY > 0 then - (3 / 10) else 3 / 10)))"
    by (simp add: z1_def wheelZoom_def)
  then show ?thesis
    using p1 pxy fixed
    unfolding Let_def s'_def [symmetric] cx_def [symmetric] cy_def [symmetric] zs' r_def [symmetric]
    by blast
qed

theorem wheel_pan_formula_witness:
  "rectWidth viewport800 \<noteq> 0 \<and> rectHeight viewport800 \<noteq> 0 \<and>
   zoom (handleWheel 400 300 (- 100) (Some viewport800) (initial True)) = 13 / 10 \<and>
   pan (handleWheel 400 300 (- 100) (Some viewport800) (initial True)) = \<lparr>px = - 120, py = - 90\<rparr> \<and>
   13 / 10 * 400 + px (pan (handleWheel 400 300 (- 100) (Some viewport800) (initial True))) = (400 :: real) \<and>
   zoom (handleWheel 400 300 100 (Some viewport800)
           ((initial True)\<lparr>zoom := 13 / 10, pan := \<lparr>px = - 120, py = - 90\<rparr>\<rparr>)) = 1 \<and>
   pan (handleWheel 400 300 100 (Some viewport800)
           ((initial True)\<lparr>zoom := 13 / 10, pan := \<lparr>px = - 120, py = - 90\<rparr>\<rparr>)) = origin"
  using wheel_pan_formula [of viewport800 400 300 "- 100" "initial True"]
        wheel_pan_formula [of viewport800 400 300 100
           "(initial True)\<lparr>zoom := 13 / 10, pan := \<lparr>px = - 120, py = - 90\<rparr>\<rparr>"]
  by (simp add: viewport800_def initial_def origin_def handleWheel_eq wheelZoom_def Let_def)

text \<open>
  Claim C10. A wheel zoom-out event (\<open>deltaY > 0\<close>) received at zoom 1 leaves the zoom
  at 1 and sets the pan to \<open>(0, 0)\<close> whatever it was; a wheel zoom-in event received at
  zoom 8 leaves the zoom and the pan as they were.
\<close>

theorem wheel_at_limits:
  "(zoom s = 1 \<and> deltaY > 0 \<longrightarrow>
      zoom (handleWheel clientX clientY deltaY (Some rect) s) = 1 \<and>
      pan (handleWheel clientX clientY deltaY (Some rect) s) = origin) \<and>
   (zoom s = 8 \<and> deltaY \<le> 0 \<longrightarrow>
      zoom (handleWheel clientX clientY deltaY (Some rect) s) = zoom s \<and>
      pan (handleWheel clientX clientY deltaY (Some rect) s) = pan s)"
  by (simp add: handleWheel_def Let_def MIN_ZOOM_def MAX_ZOOM_def ZOOM_STEP_def)

theorem wheel_at_limits_witness:
  "zoom ((initial True)\<lparr>pan := \<lparr>px = 30, py = 40\<rparr>\<rparr>) = 1 \<and> (100::real) > 0 \<and>
   pan ((initial True)\<lparr>pan := \<lparr>px = 30, py = 40\<rparr>\<rparr>) \<noteq> origin \<and>
   zoom (handleWheel 10 20 100 (Some viewport800) ((initial True)\<lparr>pan := \<lparr>px = 30, py = 40\<rparr>\<rparr>)) = 1 \<and>
   pan (handleWheel 10 20 100 (Some viewport800) ((initial True)\<lparr>pan := \<lparr>px = 30, py = 40\<rparr>\<rparr>)) = origin \<and>
   zoom ((initial True)\<lparr>zoom := 8, pan := \<lparr>px = 30, py = 40\<rparr>\<rparr>) = 8 \<and> (- 100::real) \<le> 0 \<and>
   zoom (handleWheel 10 20 (- 100) (Some viewport800)
           ((initial True)\<lparr>zoom := 8, pan := \<lparr>px = 30, py = 40\<rparr>\<rparr>)) = 8 \<and>
   pan (handleWheel 10 20 (- 100) (Some viewport800)
           ((initial True)\<lparr>zoom := 8, pan := \<lparr>px = 30, py = 40\<rparr>\<rparr>)) = \<lparr>px = 30, py = 40\<rparr>"
  using wheel_at_limits [of "(initial True)\<lparr>pan := \<lparr>px = 30, py = 40\<rparr>\<rparr>" 100 10 20 viewport800]
        wheel_at_limits [of "(initial True)\<lparr>zoom := 8, pan := \<lparr>px = 30, py = 40\<rparr>\<rparr>" "- 100" 10 20 viewport800]
  by (simp add: initial_def origin_def)

subsection \<open>Zoom to the selected area\<close>

lemma selected100x80_simps:
  "selectionRect selected100x80 = Some selection100x80"
  "dragModeRef selected100x80 = Some SelectDrag"
  "didDragRef selected100x80"
  "zoom selected100x80 = 1"
  "pan selected100x80 = origin"
  by (simp_all add: selected100x80_def selection100x80_def handleMouseMove_def handleMouseDown_def
      initial_def viewport800_def origin_def Let_def)

lemma handleMouseUp_zoom:
  assumes "selectionRect s = Some sel" and "dragModeRef s = Some SelectDrag" and "didDragRef s"
    and "selW sel > 20" and "selH sel > 20"
  shows "handleMouseUp (Some rect) s =
           (zoomToSelection sel rect s)\<lparr>selectionRect := None, dragModeRef := None,
              dragEndTimers := Suc (dragEndTimers s)\<rparr>"
  using assms by (simp add: handleMouseUp_def zoomToSelection_def Let_def)

lemma zoomToSelection_zoom:
  "zoom (zoomToSelection sel rect s) =
     min 8 (min (rectWidth rect / selW sel) (rectHeight rect / selH sel) * zoom s)"
  by (simp add: zoomToSelection_def Let_def MAX_ZOOM_def mult.commute)

lemma zoomToSelection_pan:
  "pan (zoomToSelection sel rect s) =
     \<lparr>px = rectWidth rect / 2
            - zoom (zoomToSelection sel rect s) / zoom s * (selX sel + selW sel / 2 - px (pan s)),
      py = rectHeight rect / 2
            - zoom (zoomToSelection sel rect s) / zoom s * (selY sel + selH sel / 2 - py (pan s))\<rparr>"
  by (simp add: zoomToSelection_def Let_def)

lemma centre_mapped:
  fixes z0 z1 c p q v :: real
  assumes "z0 \<noteq> 0" and "z0 * q + p = c"
  shows "z1 * q + (v - z1 / z0 * (c - p)) = v"
proof -
  have "c - p = z0 * q" using assms by simp
  then show ?thesis using assms(1) by simp
qed

text \<open>
  Claim C4. A pointer-up that ends a select drag (plain drag that moved more than 5
  pixels) whose selection rectangle is larger than 20 by 20 pixels sets the zoom to
  \<open>min (viewportWidth / selectionWidth) (viewportHeight / selectionHeight) * zoom\<close>
  clamped to 8, and the pan to
  \<open>viewportCenter - (newZoom / oldZoom) * (selectionCenter - oldPan)\<close>, which puts the
  content point shown at the selection's centre at the viewport's centre. A selection
  of 100 by 80 on a viewport of 800 by 600 at zoom 1 gives the zoom 7.5.
\<close>

theorem zoom_to_selection_formula:
  assumes "selectionRect s = Some sel" and "dragModeRef s = Some SelectDrag" and "didDragRef s"
    and "selW sel > 20" and "selH sel > 20"
  shows "let s' = handleMouseUp (Some rect) s;
             newZoom = min 8 (min (rectWidth rect / selW sel) (rectHeight rect / selH sel) * zoom s);
             ratio = newZoom / zoom s;
             selCenterX = selX sel + selW sel / 2;
             selCenterY = selY sel + selH sel / 2
         in zoom s' = newZoom \<and>
            px (pan s') = rectWidth rect / 2 - ratio * (selCenterX - px (pan s)) \<and>
            py (pan s') = rectHeight rect / 2 - ratio * (selCenterY - py (pan s)) \<and>
            (zoom s \<noteq> 0 \<longrightarrow>
               (\<forall>qx qy. zoom s * qx + px (pan s) = selCenterX \<and> zoom s * qy + py (pan s) = selCenterY \<longrightarrow>
                  zoom s' * qx + px (pan s') = rectWidth rect / 2 \<and>
                  zoom s' * qy + py (pan s') = rectHeight rect / 2))"
proof -
  define s' where "s' = handleMouseUp (Some rect) s"
  define newZoom where
    "newZoom = min 8 (min (rectWidth rect / selW sel) (rectHeight rect / selH sel) * zoom s)"
  have up: "s' = (zoomToSelection sel rect s)\<lparr>selectionRect := None, dragModeRef := None,
      dragEndTimers := Suc (dragEndTimers s)\<rparr>"
    unfolding s'_def using assms by (rule handleMouseUp_zoom)
  have z: "zoom s' = newZoom"
    by (simp add: up newZoom_def zoomToSelection_zoom)
  have p: "pan s' = \<lparr>px = rectWidth rect / 2 - newZoom / zoom s * (selX sel + selW sel / 2 - px (pan s)),
                     py = rectHeight rect / 2 - newZoom / zoom s * (selY sel + selH sel / 2 - py (pan s))\<rparr>"
    using z by (simp add: up zoomToSelection_pan)
  have c: "newZoom * qx + px (pan s') = rectWidth rect / 2 \<and>
           newZoom * qy + py (pan s') = rectHeight rect / 2"
    if "zoom s \<noteq> 0" and "zoom s * qx + px (pan s) = selX sel + selW sel / 2"
      and "zoom s * qy + py (pan s) = selY sel + selH sel / 2" for qx qy
    using centre_mapped [OF that(1) that(2), of newZoom "rectWidth rect / 2"]
      centre_mapped [OF that(1) that(3), of newZoom "rectHeight rect / 2"]
    by (simp add: p)
  have pxs: "px (pan s') = rectWidth rect / 2 - newZoom / zoom s * (selX sel + selW sel / 2 - px (pan s))"
    and pys: "py (pan s') = rectHeight rect / 2 - newZoom / zoom s * (selY sel + selH sel / 2 - py (pan s))"
    by (simp_all add: p)
  show ?thesis
    unfolding Let_def s'_def [symmetric] newZoom_def [symmetric] z
    using pxs pys c by blast
qed

theorem zoom_to_selection_formula_witness:
  "selectionRect selected100x80 = Some selection100x80 \<and>
   dragModeRef selected100x80 = Some SelectDrag \<and> didDragRef selected100x80 \<and>
   selW selection100x80 > 20 \<and> selH selection100x80 > 20 \<and>
   zoom (handleMouseUp (Some viewport800) selected100x80) = 15 / 2 \<and>
   pan (handleMouseUp (Some viewport800) selected100x80) = \<lparr>px = - 725, py = - 750\<rparr>"
  using zoom_to_selection_formula [of selected100x80 selection100x80 viewport800]
  by (simp add: selected100x80_simps selection100x80_def viewport800_def origin_def Let_def)

subsection \<open>Mode changes\<close>

text \<open>
  Claim C7. For a page \<open>p\<close> in \<open>[1, totalPages]\<close>, changing to book mode gives the
  spread 0 if \<open>p = 1\<close> and \<open>p div 2\<close> otherwise; changing back to single mode gives the
  page \<open>q\<close> that is the left page of that spread if there is one, else its right page,
  else 1. Both \<open>p\<close> and \<open>q\<close> are pages of that spread (so \<open>q\<close> is \<open>p\<close> or the other page
  of its spread), and changing to book mode again from \<open>q\<close> gives the same spread.
\<close>

theorem mode_round_trip:
  assumes "1 \<le> currentPage s" and "currentPage s \<le> totalPages s"
  shows "let p = currentPage s;
             b = handleModeChange (Some Book) s;
             sp = getSpreadPages (totalPages b) (currentSpread b);
             s2 = handleModeChange (Some Single) b;
             q = currentPage s2
         in currentSpread b = (if p = 1 then 0 else p div 2) \<and>
            q = orElse (left sp) (orElse (right sp) 1) \<and>
            (Some p = left sp \<or> Some p = right sp) \<and>
            (Some q = left sp \<or> Some q = right sp) \<and>
            1 \<le> q \<and> q \<le> totalPages s \<and>
            currentSpread (handleModeChange (Some Book) s2) = currentSpread b"
  using assms
  by (auto simp add: handleModeChange_def getSpreadPages_def orElse_def Let_def)


theorem mode_round_trip_witness:
  "1 \<le> currentPage single5of10 \<and> currentPage single5of10 \<le> totalPages single5of10 \<and>
   currentSpread (handleModeChange (Some Book) single5of10) = 2 \<and>
   currentPage (handleModeChange (Some Single) (handleModeChange (Some Book) single5of10)) = 4 \<and>
   left (getSpreadPages 10 2) = Some 4 \<and> right (getSpreadPages 10 2) = Some 5 \<and>
   currentSpread (handleModeChange (Some Book)
     (handleModeChange (Some Single) (handleModeChange (Some Book) single5of10))) = 2"
  using mode_round_trip [of single5of10]
  by (simp add: single5of10_def initial_def handleModeChange_def getSpreadPages_def orElse_def Let_def)

subsection \<open>The transform invariant\<close>

lemma onlyFetched_refl: "onlyFetched s s"
  by (simp add: onlyFetched_def)

lemma onlyFetched_trans: "onlyFetched s t \<Longrightarrow> onlyFetched t u \<Longrightarrow> onlyFetched s u"
  unfolding onlyFetched_def
proof -
  assume a: "t = s\<lparr>pageCache := pageCache t, requests := requests t\<rparr>"
    and b: "u = t\<lparr>pageCache := pageCache u, requests := requests u\<rparr>"
  have "u = (s\<lparr>pageCache := pageCache t, requests := requests t\<rparr>)\<lparr>pageCache := pageCache u, requests := requests u\<rparr>"
    using a b by simp
  then show "u = s\<lparr>pageCache := pageCache u, requests := requests u\<rparr>" by simp
qed

lemma fetchThumb_frame: "onlyFetched s (snd (fetchThumb api cc p s))"
  by (simp add: fetchThumb_def onlyFetched_def split: option.splits)

lemma fetchIf_frame: "onlyFetched s (fetchIf api cc v s)"
  by (simp add: fetchIf_def onlyFetched_refl fetchThumb_frame split: option.splits)

lemma fetchThumb_frame_step:
  "onlyFetched s t \<Longrightarrow> onlyFetched s (snd (fetchThumb api cc p t))"
  by (erule onlyFetched_trans) (rule fetchThumb_frame)

lemma fetchIf_frame_step:
  "onlyFetched s t \<Longrightarrow> onlyFetched s (fetchIf api cc v t)"
  by (erule onlyFetched_trans) (rule fetchIf_frame)

lemma loadPages_frame: "onlyFetched s (loadPages api cc s)"
  unfolding loadPages_def Let_def
  by (simp add: fetchThumb_frame_step fetchIf_frame_step onlyFetched_refl)

lemma loadEffect_frame: "onlyFetched s (loadEffect api cc s)"
  by (simp add: loadEffect_def onlyFetched_refl loadPages_frame)

lemma onlyFetched_fields:
  assumes "onlyFetched s t"
  shows "zoom t = zoom s" "pan t = pan s" "flipTimers t = flipTimers s"
    "flipTimeoutRef t = flipTimeoutRef s" "flipping t = flipping s"
    "currentSpread t = currentSpread s" "currentPage t = currentPage s"
    "totalPages t = totalPages s" "viewMode t = viewMode s" "hasDocument t = hasDocument s"
    "isDragging t = isDragging s" "selectionRect t = selectionRect s"
    "dragStartRef t = dragStartRef s" "panStartRef t = panStartRef s"
    "didDragRef t = didDragRef s" "dragModeRef t = dragModeRef s"
    "dragEndTimers t = dragEndTimers s" "nextTimerId t = nextTimerId s"
  by (subst assms [unfolded onlyFetched_def], simp)+

lemma afterRender_transform:
  "(zoom (afterRender api cc old new) = zoom new \<and> pan (afterRender api cc old new) = pan new) \<or>
   (zoom (afterRender api cc old new) = 1 \<and> pan (afterRender api cc old new) = origin)"
  unfolding afterRender_def Let_def
  by (simp add: onlyFetched_fields [OF loadEffect_frame] resetZoom_def)

lemma afterRender_same_view:
  "currentPage new = currentPage old \<Longrightarrow> viewMode new = viewMode old \<Longrightarrow>
   zoom (afterRender api cc old new) = zoom new \<and> pan (afterRender api cc old new) = pan new"
  unfolding afterRender_def Let_def
  by (simp add: onlyFetched_fields [OF loadEffect_frame])

lemma afterRender_transformOK:
  "transformOK new \<Longrightarrow> transformOK (afterRender api cc old new)"
  using afterRender_transform [of api cc old new]
  by (auto simp add: transformOK_def)

lemma afterRender_zoom_le:
  "zoom new \<le> 8 \<Longrightarrow> zoom (afterRender api cc old new) \<le> 8"
  using afterRender_transform [of api cc old new] by auto

lemma handleWheel_transformOK: "transformOK (handleWheel x y d (Some rect) s)"
  using wheelZoom_range [of d "zoom s"]
  by (simp add: transformOK_def wheel_zoom wheel_pan_unity)

lemma zoomOutClick_transformOK: "zoom s \<le> 8 \<Longrightarrow> transformOK (zoomOutClick s)"
  by (auto simp add: transformOK_def zoomOutClick_def Let_def MIN_ZOOM_def ZOOM_STEP_def max_def)

lemma zoomInClick_transformOK: "transformOK s \<Longrightarrow> transformOK (zoomInClick s)"
  by (auto simp add: transformOK_def zoomInClick_def Let_def MAX_ZOOM_def ZOOM_STEP_def min_def)

lemma resetZoom_transformOK: "transformOK (resetZoom s)"
  by (simp add: transformOK_def resetZoom_def)

lemma documentCommit_transform:
  "zoom (documentCommit api cc doc s) = (if doc then 1 else zoom s)"
  "pan (documentCommit api cc doc s) = (if doc then origin else pan s)"
  by (simp_all add: documentCommit_def documentChanged_def resetZoom_def Let_def)

lemma handleMouseDown_transform:
  "zoom (handleMouseDown x y m c s) = zoom s" "pan (handleMouseDown x y m c s) = pan s"
  by (simp_all add: handleMouseDown_def Let_def split: option.splits)

lemma handleMouseMove_zoom: "zoom (handleMouseMove x y c s) = zoom s"
  by (simp add: handleMouseMove_def Let_def split: option.splits)

lemma handleMouseMove_pan:
  "dragModeRef s \<noteq> Some PanDrag \<Longrightarrow> pan (handleMouseMove x y c s) = pan s"
  by (simp add: handleMouseMove_def Let_def split: option.splits)

lemma zoomToSelection_zoom_le: "zoom (zoomToSelection sel rect s) \<le> 8"
  by (simp add: zoomToSelection_zoom)

lemma handleMouseUp_cases:
  "(zoom (handleMouseUp c s) = zoom s \<and> pan (handleMouseUp c s) = pan s) \<or>
   (\<exists>sel rect. selectionRect s = Some sel \<and> c = Some rect \<and> selW sel > 20 \<and> selH sel > 20 \<and>
      zoom (handleMouseUp c s) = zoom (zoomToSelection sel rect s) \<and>
      pan (handleMouseUp c s) = pan (zoomToSelection sel rect s))"
  by (simp add: handleMouseUp_def Let_def split: option.splits)

lemma handleMouseUp_zoom_le: "zoom s \<le> 8 \<Longrightarrow> zoom (handleMouseUp c s) \<le> 8"
  using handleMouseUp_cases [of c s] zoomToSelection_zoom_le by auto

lemma zoomToSelection_gt1:
  assumes "1 \<le> zoom s" and "selW sel > 20" and "selH sel > 20"
    and "selW sel < rectWidth rect" and "selH sel < rectHeight rect"
  shows "1 < zoom (zoomToSelection sel rect s)"
proof -
  have "1 < rectWidth rect / selW sel" and "1 < rectHeight rect / selH sel"
    using assms by simp_all
  then have "1 < min (rectWidth rect / selW sel) (rectHeight rect / selH sel)" by simp
  then have "1 * 1 < min (rectWidth rect / selW sel) (rectHeight rect / selH sel) * zoom s"
    using assms(1) by (intro mult_less_le_imp_less) simp_all
  then show ?thesis by (simp add: zoomToSelection_zoom)
qed

lemma handleMouseUp_transformOK:
  assumes "transformOK s" and "selectionInside c s"
  shows "transformOK (handleMouseUp c s)"
  using handleMouseUp_cases [of c s]
proof
  assume "zoom (handleMouseUp c s) = zoom s \<and> pan (handleMouseUp c s) = pan s"
  then show ?thesis using assms(1) by (simp add: transformOK_def)
next
  assume "\<exists>sel rect. selectionRect s = Some sel \<and> c = Some rect \<and> selW sel > 20 \<and> selH sel > 20 \<and>
      zoom (handleMouseUp c s) = zoom (zoomToSelection sel rect s) \<and>
      pan (handleMouseUp c s) = pan (zoomToSelection sel rect s)"
  then obtain sel rect where h: "selectionRect s = Some sel" "c = Some rect" "selW sel > 20"
    "selH sel > 20" "zoom (handleMouseUp c s) = zoom (zoomToSelection sel rect s)" by blast
  have "selW sel < rectWidth rect" "selH sel < rectHeight rect"
    using assms(2) h(1,2) by (simp_all add: selectionInside_def)
  then have "1 < zoom (zoomToSelection sel rect s)"
    using zoomToSelection_gt1 [of s sel rect] assms(1) h(3,4) by (simp add: transformOK_def)
  then show ?thesis
    using zoomToSelection_zoom_le [of sel rect s] by (simp add: transformOK_def h(5))
qed

lemma flipCallback_transform:
  "zoom (flipCallback d ts s) = zoom s" "pan (flipCallback d ts s) = pan s"
  by (simp_all add: flipCallback_def split: flip.splits)

lemma flipTimeout_transform:
  "zoom (flipTimeout i s) = zoom s" "pan (flipTimeout i s) = pan s"
  by (simp_all add: flipTimeout_def flipCallback_transform split: option.splits prod.splits)

lemma navigation_transform:
  "zoom (goNextSingle s) = zoom s" "pan (goNextSingle s) = pan s"
  "zoom (goPrevSingle s) = zoom s" "pan (goPrevSingle s) = pan s"
  "zoom (goFirstSingle s) = zoom s" "pan (goFirstSingle s) = pan s"
  "zoom (goLastSingle s) = zoom s" "pan (goLastSingle s) = pan s"
  "zoom (goNextSpread s) = zoom s" "pan (goNextSpread s) = pan s"
  "zoom (goPrevSpread s) = zoom s" "pan (goPrevSpread s) = pan s"
  "zoom (goFirstSpread s) = zoom s" "pan (goFirstSpread s) = pan s"
  "zoom (goLastSpread s) = zoom s" "pan (goLastSpread s) = pan s"
  "zoom (handleModeChange m s) = zoom s" "pan (handleModeChange m s) = pan s"
  "zoom (pdfInfoLoaded n s) = zoom s" "pan (pdfInfoLoaded n s) = pan s"
  "zoom (dragEndTimeout s) = zoom s" "pan (dragEndTimeout s) = pan s"
  by (simp_all add: goNextSingle_def goPrevSingle_def goFirstSingle_def goLastSingle_def
      goNextSpread_def goPrevSpread_def goFirstSpread_def goLastSpread_def startFlip_def
      handleModeChange_def pdfInfoLoaded_def dragEndTimeout_def Let_def
      split: option.splits view_mode.splits)

lemma handleWheel_None: "handleWheel x y d None s = s"
  by (simp add: handleWheel_def)

lemma transformOK_cong:
  "zoom t = zoom s \<Longrightarrow> pan t = pan s \<Longrightarrow> transformOK t = transformOK s"
  by (simp add: transformOK_def)

lemma documentChanged_transform:
  "zoom (documentChanged doc s) = (if doc then 1 else zoom s)"
  "pan (documentChanged doc s) = (if doc then origin else pan s)"
  by (simp_all add: documentChanged_def resetZoom_def)

lemma dispatch_transformOK:
  assumes "transformOK s"
    and "\<And>x y c. e \<noteq> MouseMove x y c" and "\<And>c. e \<noteq> MouseUp c"
  shows "transformOK (dispatch e s)"
proof (cases e)
  case (Wheel x y d c)
  then show ?thesis using assms(1)
    by (cases c) (simp_all add: dispatch_def handleWheel_None handleWheel_transformOK)
next
  case ZoomOutButton
  then show ?thesis using assms(1) zoomOutClick_transformOK [of s]
    by (simp add: dispatch_def transformOK_def)
next
  case ZoomInButton
  then show ?thesis using assms(1) zoomInClick_transformOK [of s]
    by (simp add: dispatch_def)
next
  case (MouseDown x y m c)
  then show ?thesis using assms(1)
    by (simp add: dispatch_def transformOK_cong [OF handleMouseDown_transform])
next
  case (MouseMove x y c)
  then show ?thesis using assms(2) by simp
next
  case (MouseUp c)
  then show ?thesis using assms(3) by simp
next
  case (DocumentChanged doc)
  then show ?thesis using assms(1)
    by (simp add: dispatch_def transformOK_def documentChanged_transform)
qed (use assms(1) in \<open>simp_all add: dispatch_def handleDoubleClick_def resetZoom_transformOK
      transformOK_cong [OF navigation_transform(1,2)] transformOK_cong [OF navigation_transform(3,4)]
      transformOK_cong [OF navigation_transform(5,6)] transformOK_cong [OF navigation_transform(7,8)]
      transformOK_cong [OF navigation_transform(9,10)] transformOK_cong [OF navigation_transform(11,12)]
      transformOK_cong [OF navigation_transform(13,14)] transformOK_cong [OF navigation_transform(15,16)]
      transformOK_cong [OF navigation_transform(17,18)] transformOK_cong [OF navigation_transform(19,20)]
      transformOK_cong [OF navigation_transform(21,22)] transformOK_cong [OF flipTimeout_transform]\<close>)

lemma step_transformOK:
  assumes "transformOK s"
    and "\<And>x y c. e \<noteq> MouseMove x y c" and "\<And>c. e \<noteq> MouseUp c"
  shows "transformOK (step api cc e s)"
proof (cases "\<exists>doc. e = DocumentChanged doc")
  case True
  then obtain doc where e: "e = DocumentChanged doc" by blast
  have "transformOK (documentCommit api cc doc s)"
    using assms(1) by (simp add: transformOK_def documentCommit_transform)
  then show ?thesis by (simp add: step_def e afterRender_transformOK)
next
  case False
  then have "step api cc e s = afterRender api cc s (dispatch e s)"
    by (cases e) (simp_all add: step_def)
  then show ?thesis
    using dispatch_transformOK [OF assms] by (simp add: afterRender_transformOK)
qed

lemma dispatch_zoom_le:
  assumes "zoom s \<le> 8"
  shows "zoom (dispatch e s) \<le> 8"
proof (cases e)
  case (Wheel x y d c)
  then show ?thesis using assms wheelZoom_range [of d "zoom s"]
    by (cases c) (simp_all add: dispatch_def handleWheel_None wheel_zoom)
next
  case ZoomOutButton
  then show ?thesis using assms
    by (simp add: dispatch_def zoomOutClick_def Let_def MIN_ZOOM_def ZOOM_STEP_def)
next
  case ZoomInButton
  then show ?thesis using assms
    by (simp add: dispatch_def zoomInClick_def Let_def MAX_ZOOM_def)
next
  case (MouseUp c)
  then show ?thesis using assms handleMouseUp_zoom_le [of s c]
    by (simp add: dispatch_def)
qed (use assms in \<open>simp_all add: dispatch_def handleDoubleClick_def resetZoom_def
      handleMouseDown_transform handleMouseMove_zoom navigation_transform flipTimeout_transform
      documentChanged_transform\<close>)

lemma step_zoom_le:
  assumes "zoom s \<le> 8"
  shows "zoom (step api cc e s) \<le> 8"
proof (cases "\<exists>doc. e = DocumentChanged doc")
  case True
  then obtain doc where e: "e = DocumentChanged doc" by blast
  have "zoom (documentCommit api cc doc s) \<le> 8"
    using assms by (simp add: documentCommit_transform)
  then show ?thesis by (simp add: step_def e afterRender_zoom_le)
next
  case False
  then have "step api cc e s = afterRender api cc s (dispatch e s)"
    by (cases e) (simp_all add: step_def)
  then show ?thesis
    using dispatch_zoom_le [OF assms] by (simp add: afterRender_zoom_le)
qed

lemma reachable_zoom_le: "reachable s \<Longrightarrow> zoom s \<le> 8"
  by (induction rule: reachable.induct) (simp_all add: initial_def step_zoom_le)

lemma afterRender_sameView: "sameView old new \<Longrightarrow> afterRender api cc old new = new"
  by (simp add: afterRender_def loadDue_def sameView_def)

lemma sameView_refl: "sameView s s"
  by (simp add: sameView_def)

lemma sameView_zoomToSelection: "sameView s (zoomToSelection sel rect s)"
  by (simp add: sameView_def zoomToSelection_def Let_def)

lemma sameView_trans: "sameView s t \<Longrightarrow> sameView t u \<Longrightarrow> sameView s u"
  by (simp add: sameView_def)

lemma sameView_handleWheel: "sameView s (handleWheel x y d c s)"
  by (cases c) (simp_all add: sameView_def handleWheel_None handleWheel_eq)

lemma sameView_resetZoom: "sameView s (resetZoom s)"
  by (simp add: sameView_def resetZoom_def)

lemma sameView_zoomOutClick: "sameView s (zoomOutClick s)"
  by (simp add: sameView_def zoomOutClick_def Let_def)

lemma sameView_zoomInClick: "sameView s (zoomInClick s)"
  by (simp add: sameView_def zoomInClick_def)

lemma sameView_handleMouseDown: "sameView s (handleMouseDown x y m c s)"
  by (cases c) (simp_all add: sameView_def handleMouseDown_def Let_def)

lemma sameView_handleMouseMove: "sameView s (handleMouseMove x y c s)"
  by (simp add: sameView_def handleMouseMove_def Let_def split: option.splits)

lemma sameView_handleMouseUp: "sameView s (handleMouseUp c s)"
proof -
  have "sameView s (case selectionRect s of
                  None \<Rightarrow> s
                | Some sel \<Rightarrow>
                    if dragModeRef s = Some SelectDrag \<and> didDragRef s \<and> selW sel > 20 \<and> selH sel > 20
                    then (case c of None \<Rightarrow> s | Some rect \<Rightarrow> zoomToSelection sel rect s)
                    else s)" (is "sameView s ?s1")
    by (simp add: sameView_refl sameView_zoomToSelection split: option.splits)
  moreover have "sameView ?s1 (handleMouseUp c s)"
    unfolding handleMouseUp_def Let_def by (simp add: sameView_def)
  ultimately show ?thesis by (rule sameView_trans)
qed

lemma sameView_dragEndTimeout: "sameView s (dragEndTimeout s)"
  by (simp add: sameView_def dragEndTimeout_def)

lemmas sameView_handlers = sameView_handleWheel sameView_resetZoom sameView_zoomOutClick
  sameView_zoomInClick sameView_handleMouseDown sameView_handleMouseMove sameView_handleMouseUp
  sameView_dragEndTimeout

lemma step_MouseDown: "step api cc (MouseDown x y m c) s = handleMouseDown x y m c s"
  by (simp add: step_def dispatch_def afterRender_sameView sameView_handlers)

lemma step_MouseMove:
  "step api cc (MouseMove x y c) s = handleMouseMove x y c s"
proof (cases "isDragging s")
  case True
  then show ?thesis
    by (simp add: step_def dispatch_def afterRender_sameView sameView_handlers)
next
  case False
  then have "handleMouseMove x y c s = s" by (simp add: handleMouseMove_def)
  then show ?thesis using False
    by (simp add: step_def dispatch_def afterRender_sameView sameView_refl)
qed

lemma step_MouseUp:
  "step api cc (MouseUp c) s = (if isDragging s then handleMouseUp c s else s)"
  by (simp add: step_def dispatch_def afterRender_sameView sameView_handlers sameView_refl)

lemma step_Wheel: "step api cc (Wheel x y d c) s = handleWheel x y d c s"
  by (simp add: step_def dispatch_def afterRender_sameView sameView_handlers)

text \<open>
  Claim C1, amended. In every reachable state the zoom is at most 8. From a state whose
  zoom is in \<open>[1, 8]\<close> and whose pan is \<open>(0, 0)\<close> if the zoom is 1, every event other than
  a pointer move and a pointer up (wheel, zoom buttons, reset, double click, navigation,
  flip timer, mode change, change of document) leads to such a state again. A pointer
  move never changes the zoom, and leads to such a state unless it pans (Ctrl+drag) at
  zoom 1, where the pan follows the pointer. A pointer up leaves the zoom at most 8, and
  leads to such a state when the selection is smaller than the container in both
  dimensions.
\<close>

theorem transform_invariant:
  "(reachable s \<longrightarrow> zoom s \<le> 8) \<and>
   (transformOK s \<longrightarrow>
      (case e of
         MouseMove clientX clientY container \<Rightarrow>
           zoom (step api cc e s) = zoom s \<and>
           (zoom s > 1 \<or> dragModeRef s \<noteq> Some PanDrag \<longrightarrow> transformOK (step api cc e s))
       | MouseUp container \<Rightarrow>
           zoom (step api cc e s) \<le> 8 \<and>
           (selectionInside container s \<longrightarrow> transformOK (step api cc e s))
       | _ \<Rightarrow> transformOK (step api cc e s)))"
proof (intro conjI impI)
  assume "reachable s"
  then show "zoom s \<le> 8" by (rule reachable_zoom_le)
next
  assume ok: "transformOK s"
  show "case e of
         MouseMove clientX clientY container \<Rightarrow>
           zoom (step api cc e s) = zoom s \<and>
           (zoom s > 1 \<or> dragModeRef s \<noteq> Some PanDrag \<longrightarrow> transformOK (step api cc e s))
       | MouseUp container \<Rightarrow>
           zoom (step api cc e s) \<le> 8 \<and>
           (selectionInside container s \<longrightarrow> transformOK (step api cc e s))
       | _ \<Rightarrow> transformOK (step api cc e s)"
  proof (cases e)
    case (MouseMove x y c)
    have z: "zoom (handleMouseMove x y c s) = zoom s" by (rule handleMouseMove_zoom)
    have "transformOK (handleMouseMove x y c s)" if "zoom s > 1 \<or> dragModeRef s \<noteq> Some PanDrag"
      using that
    proof
      assume "zoom s > 1"
      then show ?thesis using ok by (simp add: transformOK_def z)
    next
      assume "dragModeRef s \<noteq> Some PanDrag"
      then show ?thesis using ok by (simp add: transformOK_def z handleMouseMove_pan)
    qed
    then show ?thesis by (simp add: MouseMove step_MouseMove z)
  next
    case (MouseUp c)
    have "zoom (step api cc e s) \<le> 8"
      using ok by (intro step_zoom_le) (simp add: transformOK_def)
    moreover have "transformOK (step api cc e s)" if "selectionInside c s"
      using handleMouseUp_transformOK [OF ok that] ok by (simp add: MouseUp step_MouseUp)
    ultimately show ?thesis by (simp add: MouseUp)
  qed (use step_transformOK [OF ok, of e api cc] in simp_all)
qed

text \<open>
  Against claim C1 as stated: the state \<open>ctrlDragged\<close> is reachable, its zoom is 1 and
  its pan is \<open>(40, 0)\<close>.
\<close>

theorem transform_invariant_counterexample:
  "reachable ctrlDragged \<and> zoom ctrlDragged = 1 \<and> pan ctrlDragged = \<lparr>px = 40, py = 0\<rparr> \<and>
   pan ctrlDragged \<noteq> origin"
proof -
  have "reachable ctrlDragged"
    unfolding ctrlDragged_def by (intro reachable.intros)
  moreover have "zoom ctrlDragged = 1 \<and> pan ctrlDragged = \<lparr>px = 40, py = 0\<rparr>"
    by (simp add: ctrlDragged_def step_MouseMove step_MouseDown handleMouseMove_def
        handleMouseDown_def initial_def origin_def Let_def)
  ultimately show ?thesis by (simp add: origin_def)
qed

lemma wheelZoomed_simps:
  "zoom wheelZoomed = 13 / 10" "pan wheelZoomed = \<lparr>px = - 120, py = - 90\<rparr>"
  "dragModeRef wheelZoomed = None" "isDragging wheelZoomed = False"
  by (simp_all add: wheelZoomed_def step_Wheel handleWheel_eq wheelZoom_def viewport800_def
      initial_def origin_def)

lemma initial_transformOK: "transformOK (initial doc)"
  by (simp add: transformOK_def initial_def)

theorem transform_invariant_witness:
  "reachable wheelZoomed \<and> zoom wheelZoomed \<le> 8 \<and>
   transformOK (initial True) \<and> transformOK wheelZoomed \<and>
   transformOK (step offline Map.empty ZoomInButton (initial True)) \<and>
   zoom (step offline Map.empty (MouseMove 50 10 (Some viewport800)) wheelZoomed) = zoom wheelZoomed \<and>
   transformOK (step offline Map.empty (MouseMove 50 10 (Some viewport800)) wheelZoomed) \<and>
   selectionInside (Some viewport800) selected100x80 \<and> transformOK selected100x80 \<and>
   transformOK (step offline Map.empty (MouseUp (Some viewport800)) selected100x80)"
proof -
  have r: "reachable wheelZoomed"
    unfolding wheelZoomed_def by (intro reachable.intros)
  have ok0: "transformOK (initial True)" by (rule initial_transformOK)
  have ok1: "transformOK wheelZoomed"
    by (simp add: transformOK_def wheelZoomed_simps)
  have ok2: "transformOK selected100x80"
    by (simp add: transformOK_def selected100x80_simps)
  have inside: "selectionInside (Some viewport800) selected100x80"
    by (simp add: selectionInside_def selected100x80_simps selection100x80_def viewport800_def)
  show ?thesis
    using r ok0 ok1 ok2 inside
      transform_invariant [where s = wheelZoomed and e = ZoomInButton and api = offline and cc = Map.empty]
      transform_invariant [where s = "initial True" and e = ZoomInButton and api = offline and cc = Map.empty]
      transform_invariant [where s = wheelZoomed and e = "MouseMove 50 10 (Some viewport800)" and api = offline and cc = Map.empty]
      transform_invariant [where s = selected100x80 and e = "MouseUp (Some viewport800)" and api = offline and cc = Map.empty]
    by (simp add: wheelZoomed_simps)
qed

subsection \<open>Clicks\<close>

lemma gesture_eq:
  "gesture api cc x0 y0 m c0 moves cu s =
     (let t = moveAll moves (handleMouseDown x0 y0 m c0 s)
      in if isDragging t then handleMouseUp cu t else t)"
  by (simp add: gesture_def moveAll_def step_MouseDown step_MouseMove step_MouseUp Let_def)

lemma clickPending_move:
  assumes "clickPending x0 y0 s t" and "\<bar>x - x0\<bar> \<le> 5" and "\<bar>y - y0\<bar> \<le> 5"
  shows "clickPending x0 y0 s (handleMouseMove x y c t)"
  using assms
  by (simp add: clickPending_def handleMouseMove_def Let_def split: option.splits)

lemma clickPending_moveAll:
  "clickPending x0 y0 s t \<Longrightarrow> withinClick x0 y0 moves \<Longrightarrow> clickPending x0 y0 s (moveAll moves t)"
proof (induction moves arbitrary: t)
  case Nil
  then show ?case by (simp add: moveAll_def)
next
  case (Cons m moves)
  obtain x y c where m: "m = (x, y, c)" by (cases m)
  have "clickPending x0 y0 s (handleMouseMove x y c t)"
    using Cons.prems by (intro clickPending_move) (simp_all add: withinClick_def m)
  moreover have "withinClick x0 y0 moves"
    using Cons.prems(2) by (simp add: withinClick_def)
  ultimately have "clickPending x0 y0 s (moveAll moves (handleMouseMove x y c t))"
    by (rule Cons.IH)
  then show ?case by (simp add: moveAll_def m)
qed

lemma clickPending_up:
  assumes "clickPending x0 y0 s t"
  shows "zoom (handleMouseUp cu t) = zoom s \<and> pan (handleMouseUp cu t) = pan s"
  using assms by (simp add: clickPending_def handleMouseUp_def Let_def split: option.splits)

lemma panPending_move:
  assumes "panPending x0 y0 s t"
  shows "panPending x0 y0 s (handleMouseMove x y c t)"
    and "pan (handleMouseMove x y c t) = \<lparr>px = px (pan s) + (x - x0), py = py (pan s) + (y - y0)\<rparr>"
  using assms by (simp_all add: panPending_def handleMouseMove_def Let_def)

lemma panPending_moveAll:
  "panPending x0 y0 s t \<Longrightarrow> panPending x0 y0 s (moveAll moves t)"
proof (induction moves arbitrary: t)
  case Nil
  then show ?case by (simp add: moveAll_def)
next
  case (Cons m moves)
  obtain x y c where m: "m = (x, y, c)" by (cases m)
  have "panPending x0 y0 s (moveAll moves (handleMouseMove x y c t))"
    using Cons.prems by (intro Cons.IH panPending_move)
  then show ?case by (simp add: moveAll_def m)
qed

lemma moveAll_snoc:
  "moveAll (moves @ [(x, y, c)]) t = handleMouseMove x y c (moveAll moves t)"
  by (simp add: moveAll_def)

lemma panPending_up:
  assumes "panPending x0 y0 s t"
  shows "zoom (handleMouseUp cu t) = zoom s \<and> pan (handleMouseUp cu t) = pan t"
  using assms by (simp add: panPending_def handleMouseUp_def Let_def split: option.splits)

lemma handleMouseDown_select:
  "clickPending x0 y0 s (handleMouseDown x0 y0 False (Some rect) s)"
  by (simp add: clickPending_def handleMouseDown_def Let_def)

lemma handleMouseDown_pan:
  "panPending x0 y0 s (handleMouseDown x0 y0 True (Some rect) s)"
  "pan (handleMouseDown x0 y0 True (Some rect) s) = pan s"
  by (simp_all add: panPending_def handleMouseDown_def Let_def)

text \<open>
  Claim C8, amended. A pointer-down on the container, moves that stay within 5 pixels of
  the start in both axes, and a pointer-up never change the zoom. Without Ctrl (select
  mode) they leave the pan as it was before the pointer-down. With Ctrl (pan mode) the
  pan after the pointer-up is the pan before the pointer-down plus the displacement
  of the last move from the start, so it is the same only if there was no move or the
  pointer ended where it started.
\<close>

theorem click_transform:
  assumes "withinClick x0 y0 moves"
  shows "let s' = gesture api cc x0 y0 modifier (Some rect) moves cu s
         in zoom s' = zoom s \<and>
            (\<not> modifier \<longrightarrow> pan s' = pan s) \<and>
            (modifier \<longrightarrow>
               pan s' = (if moves = [] then pan s
                         else let (x, y, c) = last moves
                              in \<lparr>px = px (pan s) + (x - x0), py = py (pan s) + (y - y0)\<rparr>))"
proof (cases modifier)
  case False
  define t where "t = moveAll moves (handleMouseDown x0 y0 False (Some rect) s)"
  have pend: "clickPending x0 y0 s t"
    unfolding t_def using handleMouseDown_select assms by (rule clickPending_moveAll)
  have "zoom (if isDragging t then handleMouseUp cu t else t) = zoom s \<and>
        pan (if isDragging t then handleMouseUp cu t else t) = pan s"
    using clickPending_up [OF pend, of cu] pend by (simp add: clickPending_def)
  then show ?thesis
    using False by (simp add: gesture_eq Let_def t_def [symmetric])
next
  case True
  define t0 where "t0 = handleMouseDown x0 y0 True (Some rect) s"
  define t where "t = moveAll moves t0"
  have pend0: "panPending x0 y0 s t0" and pan0: "pan t0 = pan s"
    unfolding t0_def by (rule handleMouseDown_pan)+
  have pend: "panPending x0 y0 s t"
    unfolding t_def using pend0 by (rule panPending_moveAll)
  then have drag: "isDragging t" by (simp add: panPending_def)
  have up: "zoom (handleMouseUp cu t) = zoom s \<and> pan (handleMouseUp cu t) = pan t"
    using pend by (rule panPending_up)
  have pant: "pan t = (if moves = [] then pan s
                       else let (x, y, c) = last moves
                            in \<lparr>px = px (pan s) + (x - x0), py = py (pan s) + (y - y0)\<rparr>)"
  proof (cases moves rule: rev_cases)
    case Nil
    then show ?thesis by (simp add: t_def moveAll_def pan0)
  next
    case (snoc ms m)
    obtain x y c where m: "m = (x, y, c)" by (cases m)
    have "panPending x0 y0 s (moveAll ms t0)"
      using pend0 by (rule panPending_moveAll)
    then have "pan (handleMouseMove x y c (moveAll ms t0)) =
        \<lparr>px = px (pan s) + (x - x0), py = py (pan s) + (y - y0)\<rparr>"
      by (rule panPending_move)
    then show ?thesis by (simp add: t_def snoc m moveAll_snoc)
  qed
  show ?thesis
    using True up drag pant by (simp add: gesture_eq Let_def t_def [symmetric] t0_def [symmetric])
qed

text \<open>
  Against claim C8 as stated: a Ctrl+click that moves 3 pixels leaves the pan at
  \<open>(3, 0)\<close>, which is not the pan before the pointer-down.
\<close>

theorem click_transform_counterexample:
  "withinClick 100 100 [(103, 100, Some viewport800)] \<and>
   pan ctrlClick = \<lparr>px = 3, py = 0\<rparr> \<and> pan ctrlClick \<noteq> pan (initial True)"
  by (simp add: ctrlClick_def withinClick_def gesture_eq moveAll_def handleMouseDown_def
      handleMouseMove_def handleMouseUp_def initial_def origin_def Let_def)

theorem click_transform_witness:
  "withinClick 100 100 [(103, 100, Some viewport800)] \<and>
   zoom plainClick = zoom wheelZoomed \<and> pan plainClick = pan wheelZoomed \<and>
   zoom ctrlClick = zoom (initial True) \<and>
   pan ctrlClick = \<lparr>px = px (pan (initial True)) + (103 - 100),
                    py = py (pan (initial True)) + (100 - 100)\<rparr>"
proof -
  have w: "withinClick 100 100 [(103, 100, Some viewport800)]"
    by (simp add: withinClick_def)
  have a: "zoom plainClick = zoom wheelZoomed \<and> pan plainClick = pan wheelZoomed"
    using click_transform [OF w, where modifier = False and api = offline and cc = Map.empty
        and rect = viewport800 and cu = "Some viewport800" and s = wheelZoomed]
    by (simp add: plainClick_def Let_def)
  have b: "zoom ctrlClick = zoom (initial True) \<and>
           pan ctrlClick = \<lparr>px = px (pan (initial True)) + (103 - 100),
                            py = py (pan (initial True)) + (100 - 100)\<rparr>"
    using click_transform [OF w, where modifier = True and api = offline and cc = Map.empty
        and rect = viewport800 and cu = "Some viewport800" and s = "initial True"]
    by (simp add: ctrlClick_def Let_def)
  show ?thesis using w a b by blast
qed

subsection \<open>The flip animation\<close>

lemma sameTimers_OK: "sameTimers s t \<Longrightarrow> flipTimersOK s \<Longrightarrow> flipTimersOK t"
  by (simp add: sameTimers_def flipTimersOK_def)

lemma sameTimers_refl: "sameTimers s s"
  by (simp add: sameTimers_def)

lemma sameTimers_trans: "sameTimers s t \<Longrightarrow> sameTimers t u \<Longrightarrow> sameTimers s u"
  by (simp add: sameTimers_def)

lemma sameTimers_afterRender: "sameTimers new (afterRender api cc old new)"
  unfolding afterRender_def Let_def
  by (simp add: sameTimers_def onlyFetched_fields [OF loadEffect_frame] resetZoom_def)

lemma sameTimers_documentCommit: "sameTimers s (documentCommit api cc doc s)"
  by (simp add: sameTimers_def documentCommit_def documentChanged_def resetZoom_def Let_def)

lemma sameTimers_handleWheel: "sameTimers s (handleWheel x y d c s)"
  by (cases c) (simp_all add: sameTimers_def handleWheel_None handleWheel_eq)

lemma sameTimers_handleMouseDown: "sameTimers s (handleMouseDown x y m c s)"
  by (cases c) (simp_all add: sameTimers_def handleMouseDown_def Let_def)

lemma sameTimers_handleMouseMove: "sameTimers s (handleMouseMove x y c s)"
  by (simp add: sameTimers_def handleMouseMove_def Let_def split: option.splits)

lemma sameTimers_zoomToSelection: "sameTimers s (zoomToSelection sel rect s)"
  by (simp add: sameTimers_def zoomToSelection_def Let_def)

lemma sameTimers_handleMouseUp: "sameTimers s (handleMouseUp c s)"
proof -
  have "sameTimers s (case selectionRect s of
                  None \<Rightarrow> s
                | Some sel \<Rightarrow>
                    if dragModeRef s = Some SelectDrag \<and> didDragRef s \<and> selW sel > 20 \<and> selH sel > 20
                    then (case c of None \<Rightarrow> s | Some rect \<Rightarrow> zoomToSelection sel rect s)
                    else s)" (is "sameTimers s ?s1")
    by (simp add: sameTimers_refl sameTimers_zoomToSelection split: option.splits)
  moreover have "sameTimers ?s1 (handleMouseUp c s)"
    unfolding handleMouseUp_def Let_def by (simp add: sameTimers_def)
  ultimately show ?thesis by (rule sameTimers_trans)
qed

lemma sameTimers_others:
  "sameTimers s (handleDoubleClick s)" "sameTimers s (resetZoom s)"
  "sameTimers s (zoomOutClick s)" "sameTimers s (zoomInClick s)"
  "sameTimers s (dragEndTimeout s)"
  "sameTimers s (goFirstSingle s)" "sameTimers s (goPrevSingle s)"
  "sameTimers s (goNextSingle s)" "sameTimers s (goLastSingle s)"
  "sameTimers s (goFirstSpread s)" "sameTimers s (goLastSpread s)"
  "sameTimers s (handleModeChange m s)" "sameTimers s (documentChanged doc s)"
  "sameTimers s (pdfInfoLoaded n s)"
  by (simp_all add: sameTimers_def handleDoubleClick_def resetZoom_def zoomOutClick_def
      zoomInClick_def dragEndTimeout_def goFirstSingle_def goPrevSingle_def goNextSingle_def
      goLastSingle_def goFirstSpread_def goLastSpread_def handleModeChange_def
      documentChanged_def pdfInfoLoaded_def Let_def split: option.splits view_mode.splits)

lemma startFlip_timers:
  "flipTimersOK s \<Longrightarrow>
   flipTimers (startFlip d s) = [(nextTimerId s, d, totalSpreads (totalPages s))] \<and>
   flipTimeoutRef (startFlip d s) = Some (nextTimerId s)"
proof -
  assume ok: "flipTimersOK s"
  have "(case flipTimeoutRef s of None \<Rightarrow> flipTimers s | Some i \<Rightarrow> clearTimeout i (flipTimers s)) = []"
  proof (cases "flipTimers s")
    case Nil
    then show ?thesis by (simp add: clearTimeout_def split: option.splits)
  next
    case (Cons t ts)
    then have "flipTimeoutRef s = Some (fst t)" and "ts = []"
      using ok by (simp_all add: flipTimersOK_def)
    then show ?thesis using Cons by (simp add: clearTimeout_def)
  qed
  then show ?thesis by (simp add: startFlip_def Let_def)
qed

lemma startFlip_OK: "flipTimersOK s \<Longrightarrow> flipTimersOK (startFlip d s)"
  using startFlip_timers [of s d] by (simp add: flipTimersOK_def)

lemma goNextSpread_OK: "flipTimersOK s \<Longrightarrow> flipTimersOK (goNextSpread s)"
  by (simp add: goNextSpread_def startFlip_OK)

lemma goPrevSpread_OK: "flipTimersOK s \<Longrightarrow> flipTimersOK (goPrevSpread s)"
  by (simp add: goPrevSpread_def startFlip_OK)

lemma flipCallback_timers: "sameTimers s (flipCallback d ts s)"
  by (simp add: sameTimers_def flipCallback_def split: flip.splits)

lemma flipTimeout_single:
  "flipTimers s = [(i, d, ts)] \<Longrightarrow> flipTimeout i s = flipCallback d ts (s\<lparr>flipTimers := []\<rparr>)"
  by (simp add: flipTimeout_def clearTimeout_def)

lemma flipTimeout_OK: "flipTimersOK s \<Longrightarrow> flipTimersOK (flipTimeout i s)"
proof (cases "find (\<lambda>t. fst t = i) (flipTimers s)")
  case None
  then show "flipTimersOK s \<Longrightarrow> ?thesis" by (simp add: flipTimeout_def)
next
  case (Some t)
  assume ok: "flipTimersOK s"
  obtain j d ts where t: "t = (j, d, ts)" by (cases t)
  have "flipTimersOK (s\<lparr>flipTimers := clearTimeout i (flipTimers s)\<rparr>)"
    using ok by (cases "flipTimers s") (simp_all add: flipTimersOK_def clearTimeout_def)
  then have "flipTimersOK (flipCallback d ts (s\<lparr>flipTimers := clearTimeout i (flipTimers s)\<rparr>))"
    using sameTimers_OK [OF flipCallback_timers] by blast
  then show ?thesis using Some t by (simp add: flipTimeout_def)
qed

lemma dispatch_flipTimersOK:
  assumes "flipTimersOK s"
  shows "flipTimersOK (dispatch e s)"
proof (cases e)
  case (Wheel x y d c)
  then show ?thesis using sameTimers_OK [OF sameTimers_handleWheel assms] by (simp add: dispatch_def)
next
  case (MouseDown x y m c)
  then show ?thesis using sameTimers_OK [OF sameTimers_handleMouseDown assms] by (simp add: dispatch_def)
next
  case (MouseMove x y c)
  then show ?thesis using sameTimers_OK [OF sameTimers_handleMouseMove assms] assms
    by (simp add: dispatch_def)
next
  case (MouseUp c)
  then show ?thesis using sameTimers_OK [OF sameTimers_handleMouseUp assms] assms
    by (simp add: dispatch_def)
next
  case PrevSpreadButton
  then show ?thesis using goPrevSpread_OK [OF assms] assms by (simp add: dispatch_def)
next
  case NextSpreadButton
  then show ?thesis using goNextSpread_OK [OF assms] assms by (simp add: dispatch_def)
next
  case (FlipTimeout i)
  then show ?thesis using flipTimeout_OK [OF assms] by (simp add: dispatch_def)
qed (use assms sameTimers_others [THEN sameTimers_OK, OF assms] in \<open>simp_all add: dispatch_def\<close>)

lemma step_flipTimersOK:
  assumes "flipTimersOK s"
  shows "flipTimersOK (step api cc e s)"
proof -
  have "flipTimersOK (case e of DocumentChanged doc \<Rightarrow> documentCommit api cc doc s | _ \<Rightarrow> dispatch e s)"
    using dispatch_flipTimersOK [OF assms, of e] sameTimers_OK [OF sameTimers_documentCommit assms]
    by (cases e) simp_all
  then show ?thesis
    unfolding step_def by (rule sameTimers_OK [OF sameTimers_afterRender])
qed

lemma reachable_flipTimersOK: "reachable s \<Longrightarrow> flipTimersOK s"
proof (induction rule: reachable.induct)
  case (reachable_initial doc)
  show ?case by (simp add: flipTimersOK_def initial_def)
next
  case (reachable_step s api closureCache e)
  then show ?case by (simp add: step_flipTimersOK)
qed

lemma afterRender_nav:
  "currentSpread (afterRender api cc old new) = currentSpread new"
  "flipping (afterRender api cc old new) = flipping new"
  "flipTimers (afterRender api cc old new) = flipTimers new"
  "flipTimeoutRef (afterRender api cc old new) = flipTimeoutRef new"
  "nextTimerId (afterRender api cc old new) = nextTimerId new"
  "totalPages (afterRender api cc old new) = totalPages new"
  "viewMode (afterRender api cc old new) = viewMode new"
  "currentPage (afterRender api cc old new) = currentPage new"
  "hasDocument (afterRender api cc old new) = hasDocument new"
  unfolding afterRender_def Let_def
  by (simp_all add: onlyFetched_fields [OF loadEffect_frame] resetZoom_def)

lemma totalSpreads_10: "totalSpreads 10 = 6"
  by (simp add: totalSpreads_div)

lemma book10_simps:
  "currentSpread book10 = 0" "flipping book10 = None" "flipTimers book10 = []"
  "flipTimeoutRef book10 = None" "nextTimerId book10 = 1" "totalPages book10 = 10"
  "viewMode book10 = Book"
  by (simp_all add: book10_def step_def afterRender_nav dispatch_def pdfInfoLoaded_def initial_def)

lemma flipStarted_simps:
  "currentSpread flipStarted = 0" "flipping flipStarted = Some FlipNext"
  "flipTimers flipStarted = [(1, FlipNext, 6)]" "totalPages flipStarted = 10"
  "viewMode flipStarted = Book"
  by (simp_all add: flipStarted_def step_def afterRender_nav dispatch_def goNextSpread_def
      startFlip_def book10_simps totalSpreads_10 Let_def)

lemma jumpedLast_simps:
  "currentSpread jumpedLast = 5" "flipping jumpedLast = None"
  "flipTimers jumpedLast = [(1, FlipNext, 6)]"
  by (simp_all add: jumpedLast_def step_def afterRender_nav dispatch_def goLastSpread_def
      flipStarted_simps totalSpreads_10)

lemma reachable_samples: "reachable book10" "reachable flipStarted" "reachable jumpedLast"
  unfolding book10_def flipStarted_def jumpedLast_def by (intro reachable.intros)+

lemma flipCallback_fields:
  "flipping (flipCallback d ts s) = None"
  "flipTimers (flipCallback d ts s) = flipTimers s"
  "currentSpread (flipCallback d ts s) =
     (case d of FlipNext \<Rightarrow> min (ts - 1) (currentSpread s + 1) | FlipPrev \<Rightarrow> max 0 (currentSpread s - 1))"
  by (simp_all add: flipCallback_def split: flip.splits)

lemma goNextSpread_accepted:
  assumes "goNextSpread s \<noteq> s"
  shows "flipping s = None" and "currentSpread s + 1 \<le> totalSpreads (totalPages s) - 1"
    and "goNextSpread s = startFlip FlipNext s"
  using assms by (simp_all add: goNextSpread_def split: if_splits)

lemma goPrevSpread_accepted:
  assumes "goPrevSpread s \<noteq> s"
  shows "flipping s = None" and "0 \<le> currentSpread s - 1"
    and "goPrevSpread s = startFlip FlipPrev s"
  using assms by (simp_all add: goPrevSpread_def split: if_splits)

lemma startFlip_fields:
  "flipping (startFlip d s) = Some d" "currentSpread (startFlip d s) = currentSpread s"
  by (simp_all add: startFlip_def Let_def)

text \<open>
  What the flip handlers guarantee. While a flip is in progress a \<open>next\<close> or \<open>prev\<close>
  request changes nothing: not the spread index, and no timer is started. A request is
  accepted only when no flip is in progress and, the current spread being in
  \<open>[0, totalSpreads - 1]\<close>, its target is in that range too. In every reachable state at
  most one flip timer is pending. The callback of a timer clears the flip state and
  moves the index it finds by one step, clamped to \<open>[0, totalSpreads - 1]\<close>; run right
  after its request was accepted, it leaves the index exactly one spread further in the
  requested direction.
\<close>

lemma flip_requests:
  "(flipping s \<noteq> None \<longrightarrow> goNextSpread s = s \<and> goPrevSpread s = s) \<and>
   (0 \<le> currentSpread s \<and> currentSpread s \<le> totalSpreads (totalPages s) - 1 \<longrightarrow>
      (goNextSpread s \<noteq> s \<longrightarrow>
         flipping s = None \<and> 0 \<le> currentSpread s + 1 \<and>
         currentSpread s + 1 \<le> totalSpreads (totalPages s) - 1) \<and>
      (goPrevSpread s \<noteq> s \<longrightarrow>
         flipping s = None \<and> 0 \<le> currentSpread s - 1 \<and>
         currentSpread s - 1 \<le> totalSpreads (totalPages s) - 1)) \<and>
   (reachable s \<longrightarrow>
      length (flipTimers s) \<le> 1 \<and>
      (\<forall>i d ts. (i, d, ts) \<in> set (flipTimers s) \<longrightarrow>
         flipping (flipTimeout i s) = None \<and> flipTimers (flipTimeout i s) = [] \<and>
         currentSpread (flipTimeout i s) =
           (case d of FlipNext \<Rightarrow> min (ts - 1) (currentSpread s + 1)
                    | FlipPrev \<Rightarrow> max 0 (currentSpread s - 1))) \<and>
      (goNextSpread s \<noteq> s \<longrightarrow>
         flipping (goNextSpread s) = Some FlipNext \<and>
         currentSpread (goNextSpread s) = currentSpread s \<and>
         flipTimers (goNextSpread s) = [(nextTimerId s, FlipNext, totalSpreads (totalPages s))] \<and>
         flipping (flipTimeout (nextTimerId s) (goNextSpread s)) = None \<and>
         currentSpread (flipTimeout (nextTimerId s) (goNextSpread s)) = currentSpread s + 1) \<and>
      (goPrevSpread s \<noteq> s \<longrightarrow>
         flipping (goPrevSpread s) = Some FlipPrev \<and>
         currentSpread (goPrevSpread s) = currentSpread s \<and>
         flipTimers (goPrevSpread s) = [(nextTimerId s, FlipPrev, totalSpreads (totalPages s))] \<and>
         flipping (flipTimeout (nextTimerId s) (goPrevSpread s)) = None \<and>
         currentSpread (flipTimeout (nextTimerId s) (goPrevSpread s)) = currentSpread s - 1))"
proof (intro conjI impI)
  assume "flipping s \<noteq> None"
  then show "goNextSpread s = s" and "goPrevSpread s = s"
    by (simp_all add: goNextSpread_def goPrevSpread_def)
next
  assume "goNextSpread s \<noteq> s"
  then show "flipping s = None" by (rule goNextSpread_accepted)
next
  assume "0 \<le> currentSpread s \<and> currentSpread s \<le> totalSpreads (totalPages s) - 1"
  then show "0 \<le> currentSpread s + 1" by simp
next
  assume "goNextSpread s \<noteq> s"
  then show "currentSpread s + 1 \<le> totalSpreads (totalPages s) - 1" by (rule goNextSpread_accepted)
next
  assume "goPrevSpread s \<noteq> s"
  then show "flipping s = None" by (rule goPrevSpread_accepted)
next
  assume "goPrevSpread s \<noteq> s"
  then show "0 \<le> currentSpread s - 1" by (rule goPrevSpread_accepted)
next
  assume "0 \<le> currentSpread s \<and> currentSpread s \<le> totalSpreads (totalPages s) - 1"
  then show "currentSpread s - 1 \<le> totalSpreads (totalPages s) - 1" by simp
next
  assume "reachable s"
  then show "length (flipTimers s) \<le> 1"
    using reachable_flipTimersOK [of s] by (simp add: flipTimersOK_def)
next
  assume r: "reachable s"
  show "\<forall>i d ts. (i, d, ts) \<in> set (flipTimers s) \<longrightarrow>
         flipping (flipTimeout i s) = None \<and> flipTimers (flipTimeout i s) = [] \<and>
         currentSpread (flipTimeout i s) =
           (case d of FlipNext \<Rightarrow> min (ts - 1) (currentSpread s + 1)
                    | FlipPrev \<Rightarrow> max 0 (currentSpread s - 1))"
  proof (intro allI impI)
    fix i d ts
    assume mem: "(i, d, ts) \<in> set (flipTimers s)"
    have "length (flipTimers s) \<le> 1"
      using reachable_flipTimersOK [OF r] by (simp add: flipTimersOK_def)
    then have "flipTimers s = [(i, d, ts)]"
      using mem by (cases "flipTimers s") simp_all
    then have "flipTimeout i s = flipCallback d ts (s\<lparr>flipTimers := []\<rparr>)"
      by (rule flipTimeout_single)
    then show "flipping (flipTimeout i s) = None \<and> flipTimers (flipTimeout i s) = [] \<and>
         currentSpread (flipTimeout i s) =
           (case d of FlipNext \<Rightarrow> min (ts - 1) (currentSpread s + 1)
                    | FlipPrev \<Rightarrow> max 0 (currentSpread s - 1))"
      by (simp add: flipCallback_fields split: flip.splits)
  qed
next
  assume r: "reachable s" and acc: "goNextSpread s \<noteq> s"
  have eq: "goNextSpread s = startFlip FlipNext s" using acc by (rule goNextSpread_accepted)
  have le: "currentSpread s + 1 \<le> totalSpreads (totalPages s) - 1"
    using acc by (rule goNextSpread_accepted)
  have tm: "flipTimers (startFlip FlipNext s) = [(nextTimerId s, FlipNext, totalSpreads (totalPages s))]"
    using startFlip_timers [OF reachable_flipTimersOK [OF r]] by simp
  have fire: "flipTimeout (nextTimerId s) (startFlip FlipNext s) =
      flipCallback FlipNext (totalSpreads (totalPages s)) ((startFlip FlipNext s)\<lparr>flipTimers := []\<rparr>)"
    using tm by (rule flipTimeout_single)
  show "flipping (goNextSpread s) = Some FlipNext"
    and "currentSpread (goNextSpread s) = currentSpread s"
    and "flipTimers (goNextSpread s) = [(nextTimerId s, FlipNext, totalSpreads (totalPages s))]"
    and "flipping (flipTimeout (nextTimerId s) (goNextSpread s)) = None"
    and "currentSpread (flipTimeout (nextTimerId s) (goNextSpread s)) = currentSpread s + 1"
    using le by (simp_all add: eq tm fire startFlip_fields flipCallback_fields)
next
  assume r: "reachable s" and acc: "goPrevSpread s \<noteq> s"
  have eq: "goPrevSpread s = startFlip FlipPrev s" using acc by (rule goPrevSpread_accepted)
  have le: "0 \<le> currentSpread s - 1"
    using acc by (rule goPrevSpread_accepted)
  have tm: "flipTimers (startFlip FlipPrev s) = [(nextTimerId s, FlipPrev, totalSpreads (totalPages s))]"
    using startFlip_timers [OF reachable_flipTimersOK [OF r]] by simp
  have fire: "flipTimeout (nextTimerId s) (startFlip FlipPrev s) =
      flipCallback FlipPrev (totalSpreads (totalPages s)) ((startFlip FlipPrev s)\<lparr>flipTimers := []\<rparr>)"
    using tm by (rule flipTimeout_single)
  show "flipping (goPrevSpread s) = Some FlipPrev"
    and "currentSpread (goPrevSpread s) = currentSpread s"
    and "flipTimers (goPrevSpread s) = [(nextTimerId s, FlipPrev, totalSpreads (totalPages s))]"
    and "flipping (flipTimeout (nextTimerId s) (goPrevSpread s)) = None"
    and "currentSpread (flipTimeout (nextTimerId s) (goPrevSpread s)) = currentSpread s - 1"
    using le by (simp_all add: eq tm fire startFlip_fields flipCallback_fields)
qed

subsection \<open>Spread addressing\<close>

text \<open>
  Against claim C2 as stated: for a document without pages the cover spread still has
  the right page 1, not \<open>null\<close>.
\<close>

theorem spread_addressing_counterexample:
  "right (getSpreadPages 0 0) = Some 1 \<and> right (getSpreadPages 0 0) \<noteq> None"
  by (simp add: getSpreadPages_def)

text \<open>
  Claim C2, amended. For every page count, also 0, the spread 0 is
  \<open>{left: null, right: 1}\<close>; for every spread \<open>s \<ge> 1\<close> the left page is \<open>2s\<close> and the right
  page \<open>2s + 1\<close>, each replaced by \<open>null\<close> when it exceeds the page count; the number of
  spreads is \<open>ceil ((pageCount + 1) / 2)\<close>, which for a page count \<open>\<ge> 0\<close> is
  \<open>pageCount div 2 + 1\<close>, and the spreads \<open>s \<ge> 0\<close> that have a page are those below it.
\<close>

theorem spread_addressing:
  "getSpreadPages tp 0 = \<lparr>left = None, right = Some 1\<rparr> \<and>
   (1 \<le> spr \<longrightarrow>
      left (getSpreadPages tp spr) = (if 2 * spr \<le> tp then Some (2 * spr) else None) \<and>
      right (getSpreadPages tp spr) = (if 2 * spr + 1 \<le> tp then Some (2 * spr + 1) else None)) \<and>
   totalSpreads tp = \<lceil>(real_of_int tp + 1) / 2\<rceil> \<and>
   (0 \<le> tp \<longrightarrow>
      totalSpreads tp = tp div 2 + 1 \<and>
      (0 \<le> spr \<longrightarrow>
         (left (getSpreadPages tp spr) \<noteq> None \<or> right (getSpreadPages tp spr) \<noteq> None)
           = (spr < totalSpreads tp)))"
proof (intro conjI impI)
  show "getSpreadPages tp 0 = \<lparr>left = None, right = Some 1\<rparr>"
    by (simp add: getSpreadPages_def)
  show "totalSpreads tp = \<lceil>(real_of_int tp + 1) / 2\<rceil>"
    by (simp add: totalSpreads_def)
next
  assume "1 \<le> spr"
  then show "left (getSpreadPages tp spr) = (if 2 * spr \<le> tp then Some (2 * spr) else None)"
    and "right (getSpreadPages tp spr) = (if 2 * spr + 1 \<le> tp then Some (2 * spr + 1) else None)"
    by (simp_all add: getSpreadPages_def Let_def mult.commute)
next
  assume "0 \<le> tp"
  then show "totalSpreads tp = tp div 2 + 1"
    by (simp add: totalSpreads_div)
next
  assume tp: "0 \<le> tp" and spr: "0 \<le> spr"
  show "(left (getSpreadPages tp spr) \<noteq> None \<or> right (getSpreadPages tp spr) \<noteq> None)
           = (spr < totalSpreads tp)"
  proof (cases "spr = 0")
    case True
    then show ?thesis using tp by (simp add: getSpreadPages_def totalSpreads_div)
  next
    case False
    have l: "left (getSpreadPages tp spr) \<noteq> None \<longleftrightarrow> spr * 2 \<le> tp"
      and r: "right (getSpreadPages tp spr) \<noteq> None \<longleftrightarrow> spr * 2 + 1 \<le> tp"
      using False by (simp_all add: getSpreadPages_def Let_def)
    show ?thesis
      unfolding l r totalSpreads_div by presburger
  qed
qed

theorem spread_addressing_witness:
  "getSpreadPages 0 0 = \<lparr>left = None, right = Some 1\<rparr> \<and> (1::int) \<le> 3 \<and> (0::int) \<le> 10 \<and>
   left (getSpreadPages 10 3) = Some 6 \<and> right (getSpreadPages 10 3) = Some 7 \<and>
   left (getSpreadPages 10 5) = Some 10 \<and> right (getSpreadPages 10 5) = None \<and>
   totalSpreads 10 = 6 \<and> (3::int) < 6 \<and>
   (left (getSpreadPages 10 6) \<noteq> None \<or> right (getSpreadPages 10 6) \<noteq> None) = False"
  using spread_addressing [of 0 3] spread_addressing [of 10 3] spread_addressing [of 10 5]
    spread_addressing [of 10 6]
  by simp

subsection \<open>Thumbnail requests\<close>

lemma fetchThumb_requests:
  "requests (snd (fetchThumb api cc p s)) =
     requests s @ (if requestGoesOut cc p s then [p] else [])"
  by (auto simp add: fetchThumb_def requestGoesOut_def split: option.splits)

lemma fetchThumb_failure:
  assumes "requestGoesOut cc p s" and "api p = None"
  shows "fetchThumb api cc p s = (None, s\<lparr>requests := requests s @ [p]\<rparr>)"
  using assms by (auto simp add: fetchThumb_def requestGoesOut_def split: option.splits)

lemma requestGoesOut_frame:
  "onlyFetched s t \<Longrightarrow> requestGoesOut cc p t = requestGoesOut cc p s"
  by (simp add: requestGoesOut_def onlyFetched_fields)

lemma fetchIf_requests:
  "requests (fetchIf api cc v s) =
     requests s @ (case v of None \<Rightarrow> [] | Some p \<Rightarrow> if p \<noteq> 0 \<and> requestGoesOut cc p s then [p] else [])"
  by (simp add: fetchIf_def fetchThumb_requests split: option.splits)

lemma fetchThumb_requests_step:
  "onlyFetched s t \<Longrightarrow>
   requests (snd (fetchThumb api cc p t)) = requests t @ (if requestGoesOut cc p s then [p] else [])"
  by (simp add: fetchThumb_requests requestGoesOut_frame)

lemma fetchIf_requests_step:
  "onlyFetched s t \<Longrightarrow>
   requests (fetchIf api cc v t) =
     requests t @ (case v of None \<Rightarrow> []
                   | Some p \<Rightarrow> if p \<noteq> 0 \<and> requestGoesOut cc p s then [p] else [])"
  by (simp add: fetchIf_requests requestGoesOut_frame split: option.splits)

lemma loadPages_single_requests:
  assumes "viewMode s = Single"
  shows "requests (loadPages api cc s) =
           requests s @ wanted cc s (Some (currentPage s)) @ wanted cc s (Some (currentPage s + 1))
             @ wanted cc s (Some (currentPage s - 1))"
proof -
  define s1 where "s1 = snd (fetchThumb api cc (currentPage s) s)"
  define s2 where "s2 = snd (fetchThumb api cc (currentPage s + 1) s1)"
  define s3 where "s3 = snd (fetchThumb api cc (currentPage s - 1) s2)"
  have f1: "onlyFetched s s1" unfolding s1_def by (rule fetchThumb_frame)
  have f2: "onlyFetched s s2" unfolding s2_def using f1 by (rule fetchThumb_frame_step)
  have r1: "requests s1 = requests s @ (if requestGoesOut cc (currentPage s) s then [currentPage s] else [])"
    unfolding s1_def by (rule fetchThumb_requests)
  have r2: "requests s2 = requests s1 @ (if requestGoesOut cc (currentPage s + 1) s then [currentPage s + 1] else [])"
    unfolding s2_def using f1 by (rule fetchThumb_requests_step)
  have r3: "requests s3 = requests s2 @ (if requestGoesOut cc (currentPage s - 1) s then [currentPage s - 1] else [])"
    unfolding s3_def using f2 by (rule fetchThumb_requests_step)
  have "loadPages api cc s = s3"
    using assms by (simp add: loadPages_def Let_def s1_def s2_def s3_def)
  moreover have "wanted cc s (Some (currentPage s)) =
      (if requestGoesOut cc (currentPage s) s then [currentPage s] else [])"
    by (auto simp add: wanted_def requestGoesOut_def)
  moreover have "wanted cc s (Some (currentPage s + 1)) =
      (if requestGoesOut cc (currentPage s + 1) s then [currentPage s + 1] else [])"
    by (auto simp add: wanted_def requestGoesOut_def)
  moreover have "wanted cc s (Some (currentPage s - 1)) =
      (if requestGoesOut cc (currentPage s - 1) s then [currentPage s - 1] else [])"
    by (auto simp add: wanted_def requestGoesOut_def)
  ultimately show ?thesis
    by (simp only: r1 r2 r3 append_assoc simp_thms)
qed

lemma loadPages_book_requests:
  assumes "viewMode s \<noteq> Single"
  shows "requests (loadPages api cc s) =
           requests s
           @ wanted cc s (left (getSpreadPages (totalPages s) (currentSpread s)))
           @ wanted cc s (right (getSpreadPages (totalPages s) (currentSpread s)))
           @ wanted cc s (left (getSpreadPages (totalPages s) (currentSpread s + 1)))
           @ wanted cc s (right (getSpreadPages (totalPages s) (currentSpread s + 1)))
           @ wanted cc s (left (getSpreadPages (totalPages s) (currentSpread s - 1)))
           @ wanted cc s (right (getSpreadPages (totalPages s) (currentSpread s - 1)))"
proof -
  define cur where "cur = getSpreadPages (totalPages s) (currentSpread s)"
  define nxt where "nxt = getSpreadPages (totalPages s) (currentSpread s + 1)"
  define prv where "prv = getSpreadPages (totalPages s) (currentSpread s - 1)"
  define s1 where "s1 = fetchIf api cc (left cur) s"
  define s2 where "s2 = fetchIf api cc (right cur) s1"
  define s3 where "s3 = fetchIf api cc (left nxt) s2"
  define s4 where "s4 = fetchIf api cc (right nxt) s3"
  define s5 where "s5 = fetchIf api cc (left prv) s4"
  define s6 where "s6 = fetchIf api cc (right prv) s5"
  have f1: "onlyFetched s s1" unfolding s1_def by (rule fetchIf_frame)
  have f2: "onlyFetched s s2" unfolding s2_def using f1 by (rule fetchIf_frame_step)
  have f3: "onlyFetched s s3" unfolding s3_def using f2 by (rule fetchIf_frame_step)
  have f4: "onlyFetched s s4" unfolding s4_def using f3 by (rule fetchIf_frame_step)
  have f5: "onlyFetched s s5" unfolding s5_def using f4 by (rule fetchIf_frame_step)
  have r1: "requests s1 = requests s @ wanted cc s (left cur)"
    unfolding s1_def wanted_def by (rule fetchIf_requests)
  have r2: "requests s2 = requests s1 @ wanted cc s (right cur)"
    unfolding s2_def wanted_def using f1 by (rule fetchIf_requests_step)
  have r3: "requests s3 = requests s2 @ wanted cc s (left nxt)"
    unfolding s3_def wanted_def using f2 by (rule fetchIf_requests_step)
  have r4: "requests s4 = requests s3 @ wanted cc s (right nxt)"
    unfolding s4_def wanted_def using f3 by (rule fetchIf_requests_step)
  have r5: "requests s5 = requests s4 @ wanted cc s (left prv)"
    unfolding s5_def wanted_def using f4 by (rule fetchIf_requests_step)
  have r6: "requests s6 = requests s5 @ wanted cc s (right prv)"
    unfolding s6_def wanted_def using f5 by (rule fetchIf_requests_step)
  have "loadPages api cc s = s6"
    using assms
    by (simp add: loadPages_def Let_def s1_def s2_def s3_def s4_def s5_def s6_def cur_def nxt_def prv_def)
  then show ?thesis
    by (simp only: r1 r2 r3 r4 r5 r6 append_assoc cur_def nxt_def prv_def)
qed

lemma count_wanted:
  "count_list (wanted cc s v) p = (if v = Some p \<and> p \<noteq> 0 \<and> requestGoesOut cc p s then 1 else 0)"
  by (simp add: wanted_def split: option.splits)

lemma spread_pages_apart:
  assumes "left (getSpreadPages tp cs) = Some p \<or> right (getSpreadPages tp cs) = Some p"
  shows "\<not> (left (getSpreadPages tp cs) = Some p \<and> right (getSpreadPages tp cs) = Some p)"
    and "left (getSpreadPages tp (cs + 1)) \<noteq> Some p"
    and "right (getSpreadPages tp (cs + 1)) \<noteq> Some p"
    and "left (getSpreadPages tp (cs - 1)) \<noteq> Some p"
    and "right (getSpreadPages tp (cs - 1)) \<noteq> Some p"
  using assms by (auto simp add: getSpreadPages_def Let_def split: if_splits)

lemma loadPages_count:
  assumes "showsPage s p" and "requestGoesOut cc p s"
  shows "count_list (requests (loadPages api cc s)) p = count_list (requests s) p + 1"
proof (cases "viewMode s = Single")
  case True
  have p: "currentPage s = p" using assms(1) True by (simp add: showsPage_def)
  have "p \<noteq> 0" using assms(2) by (simp add: requestGoesOut_def)
  then show ?thesis
    using assms(2) by (simp add: loadPages_single_requests [OF True] count_wanted p)
next
  case False
  have sh: "left (getSpreadPages (totalPages s) (currentSpread s)) = Some p
            \<or> right (getSpreadPages (totalPages s) (currentSpread s)) = Some p"
    using assms(1) False by (simp add: showsPage_def)
  have "p \<noteq> 0" using assms(2) by (simp add: requestGoesOut_def)
  then show ?thesis
    using assms(2) sh spread_pages_apart [OF sh]
    by (auto simp add: loadPages_book_requests [OF False] count_wanted)
qed

lemma loadEffect_count:
  assumes "showsPage s p" and "requestGoesOut cc p s"
  shows "count_list (requests (loadEffect api cc s)) p = count_list (requests s) p + 1"
proof -
  have "hasDocument s" and "totalPages s \<noteq> 0"
    using assms(2) by (auto simp add: requestGoesOut_def)
  then have "loadEffect api cc s = loadPages api cc s" by (simp add: loadEffect_def)
  then show ?thesis using loadPages_count [OF assms] by simp
qed

lemma sameStore_refl: "sameStore s s"
  by (simp add: sameStore_def)

lemma sameStore_trans: "sameStore s t \<Longrightarrow> sameStore t u \<Longrightarrow> sameStore s u"
  by (simp add: sameStore_def)

lemma sameStore_handleWheel: "sameStore s (handleWheel x y d c s)"
  by (cases c) (simp_all add: sameStore_def handleWheel_None handleWheel_eq)

lemma sameStore_handleMouseDown: "sameStore s (handleMouseDown x y m c s)"
  by (cases c) (simp_all add: sameStore_def handleMouseDown_def Let_def)

lemma sameStore_handleMouseMove: "sameStore s (handleMouseMove x y c s)"
  by (simp add: sameStore_def handleMouseMove_def Let_def split: option.splits)

lemma sameStore_zoomToSelection: "sameStore s (zoomToSelection sel rect s)"
  by (simp add: sameStore_def zoomToSelection_def Let_def)

lemma sameStore_handleMouseUp: "sameStore s (handleMouseUp c s)"
proof -
  have "sameStore s (case selectionRect s of
                  None \<Rightarrow> s
                | Some sel \<Rightarrow>
                    if dragModeRef s = Some SelectDrag \<and> didDragRef s \<and> selW sel > 20 \<and> selH sel > 20
                    then (case c of None \<Rightarrow> s | Some rect \<Rightarrow> zoomToSelection sel rect s)
                    else s)" (is "sameStore s ?s1")
    by (simp add: sameStore_refl sameStore_zoomToSelection split: option.splits)
  moreover have "sameStore ?s1 (handleMouseUp c s)"
    unfolding handleMouseUp_def Let_def by (simp add: sameStore_def)
  ultimately show ?thesis by (rule sameStore_trans)
qed

lemma sameStore_flipTimeout: "sameStore s (flipTimeout i s)"
  by (simp add: sameStore_def flipTimeout_def flipCallback_def
      split: option.splits prod.splits flip.splits)

lemma sameStore_others:
  "sameStore s (handleDoubleClick s)" "sameStore s (resetZoom s)"
  "sameStore s (zoomOutClick s)" "sameStore s (zoomInClick s)"
  "sameStore s (dragEndTimeout s)"
  "sameStore s (goFirstSingle s)" "sameStore s (goPrevSingle s)"
  "sameStore s (goNextSingle s)" "sameStore s (goLastSingle s)"
  "sameStore s (goFirstSpread s)" "sameStore s (goLastSpread s)"
  "sameStore s (goNextSpread s)" "sameStore s (goPrevSpread s)"
  "sameStore s (handleModeChange m s)" "sameStore s (pdfInfoLoaded n s)"
  by (simp_all add: sameStore_def handleDoubleClick_def resetZoom_def zoomOutClick_def
      zoomInClick_def dragEndTimeout_def goFirstSingle_def goPrevSingle_def goNextSingle_def
      goLastSingle_def goFirstSpread_def goLastSpread_def goNextSpread_def goPrevSpread_def
      startFlip_def handleModeChange_def pdfInfoLoaded_def Let_def
      split: option.splits view_mode.splits)

lemma dispatch_sameStore:
  assumes "\<And>doc. e \<noteq> DocumentChanged doc"
  shows "sameStore s (dispatch e s)"
proof (cases e)
  case (Wheel x y d c)
  then show ?thesis by (simp add: dispatch_def sameStore_handleWheel)
next
  case (MouseDown x y m c)
  then show ?thesis by (simp add: dispatch_def sameStore_handleMouseDown)
next
  case (MouseMove x y c)
  then show ?thesis by (simp add: dispatch_def sameStore_handleMouseMove sameStore_refl)
next
  case (MouseUp c)
  then show ?thesis by (simp add: dispatch_def sameStore_handleMouseUp sameStore_refl)
next
  case (FlipTimeout i)
  then show ?thesis by (simp add: dispatch_def sameStore_flipTimeout)
next
  case (DocumentChanged doc)
  then show ?thesis using assms by simp
qed (simp_all add: dispatch_def sameStore_others sameStore_refl)

lemma step_plain:
  assumes "\<And>doc. e \<noteq> DocumentChanged doc"
  shows "step api cc e s = afterRender api cc s (dispatch e s)"
proof (cases e)
  case (DocumentChanged doc)
  then show ?thesis using assms by blast
qed (simp_all add: step_def)

lemma step_same_view:
  assumes "\<And>doc. e \<noteq> DocumentChanged doc" and "\<not> loadDue s (dispatch e s)"
  shows "requests (step api cc e s) = requests s \<and> pageCache (step api cc e s) = pageCache s"
proof -
  have "sameView s (dispatch e s)"
    using assms(2) by (simp add: loadDue_def sameView_def)
  then have "step api cc e s = dispatch e s"
    by (simp add: step_plain [OF assms(1)] afterRender_sameView)
  then show ?thesis
    using dispatch_sameStore [OF assms(1), of s] by (simp add: sameStore_def)
qed

lemma resetZoom_fetch:
  "showsPage (resetZoom t) p = showsPage t p"
  "requestGoesOut cc p (resetZoom t) = requestGoesOut cc p t"
  "requests (resetZoom t) = requests t"
  by (simp_all add: showsPage_def requestGoesOut_def resetZoom_def)

lemma step_view_change:
  assumes "\<And>doc. e \<noteq> DocumentChanged doc" and "loadDue s (dispatch e s)"
    and "showsPage (dispatch e s) p" and "requestGoesOut cc p (dispatch e s)"
  shows "count_list (requests (step api cc e s)) p = count_list (requests s) p + 1"
proof -
  define t where "t = dispatch e s"
  define r where "r = (if currentPage t \<noteq> currentPage s \<or> viewMode t \<noteq> viewMode s
                       then resetZoom t else t)"
  have st: "step api cc e s = loadEffect api cc r"
    using assms(2) by (simp add: step_plain [OF assms(1)] afterRender_def Let_def t_def r_def)
  have sh: "showsPage t p" and go: "requestGoesOut cc p t"
    using assms(3,4) by (simp_all add: t_def)
  have "r = resetZoom t \<or> r = t" by (simp add: r_def)
  then have "showsPage r p" and "requestGoesOut cc p r" and "requests r = requests t"
    using sh go by (auto simp add: resetZoom_fetch)
  moreover have "requests t = requests s"
    using dispatch_sameStore [OF assms(1), of s] by (simp add: sameStore_def t_def)
  ultimately show ?thesis
    using loadEffect_count [of r p cc api] by (simp add: st)
qed

text \<open>
  Against claim C3 as stated: after the request for page 5 has failed, the cache is
  what it was before and holds nothing for page 5.
\<close>

theorem fetch_failures_counterexample:
  "offline 5 = None \<and>
   fst (fetchThumb offline Map.empty 5 single5of10) = None \<and>
   pageCache (snd (fetchThumb offline Map.empty 5 single5of10)) 5 = None \<and>
   pageCache (snd (fetchThumb offline Map.empty 5 single5of10)) = pageCache single5of10"
  by (simp add: fetchThumb_def offline_def single5of10_def initial_def)

text \<open>
  Claim C3, amended. A failed request for a page records nothing: \<open>fetchThumb\<close> returns
  \<open>null\<close>, the cache is what it was, and the request is logged once. An event that
  leaves document, page count, page, spread and mode as they were sends no request and
  leaves the cache alone. An event that changes one of them, to a view that shows a
  page in range for which the cache read by \<open>fetchThumb\<close> has no thumbnail, sends
  exactly one request for that page.
\<close>

theorem fetch_failures:
  "(requestGoesOut cc p s \<and> api p = None \<longrightarrow>
      fst (fetchThumb api cc p s) = None \<and>
      pageCache (snd (fetchThumb api cc p s)) = pageCache s \<and>
      requests (snd (fetchThumb api cc p s)) = requests s @ [p]) \<and>
   ((\<forall>doc. e \<noteq> DocumentChanged doc) \<and> \<not> loadDue s (dispatch e s) \<longrightarrow>
      requests (step api cc e s) = requests s \<and> pageCache (step api cc e s) = pageCache s) \<and>
   ((\<forall>doc. e \<noteq> DocumentChanged doc) \<and> loadDue s (dispatch e s) \<and>
      showsPage (dispatch e s) p \<and> requestGoesOut cc p (dispatch e s) \<longrightarrow>
      count_list (requests (step api cc e s)) p = count_list (requests s) p + 1)"
proof (intro conjI impI)
  assume a: "requestGoesOut cc p s \<and> api p = None"
  then have f: "fetchThumb api cc p s = (None, s\<lparr>requests := requests s @ [p]\<rparr>)"
    by (intro fetchThumb_failure) simp_all
  show "fst (fetchThumb api cc p s) = None"
    and "pageCache (snd (fetchThumb api cc p s)) = pageCache s"
    and "requests (snd (fetchThumb api cc p s)) = requests s @ [p]"
    by (simp_all add: f)
next
  assume a: "(\<forall>doc. e \<noteq> DocumentChanged doc) \<and> \<not> loadDue s (dispatch e s)"
  then have "requests (step api cc e s) = requests s \<and> pageCache (step api cc e s) = pageCache s"
    by (intro step_same_view) blast+
  then show "requests (step api cc e s) = requests s"
    and "pageCache (step api cc e s) = pageCache s" by simp_all
next
  assume a: "(\<forall>doc. e \<noteq> DocumentChanged doc) \<and> loadDue s (dispatch e s) \<and>
      showsPage (dispatch e s) p \<and> requestGoesOut cc p (dispatch e s)"
  then show "count_list (requests (step api cc e s)) p = count_list (requests s) p + 1"
    by (intro step_view_change) blast+
qed

theorem fetch_failures_witness:
  "requestGoesOut Map.empty 5 single5of10 \<and> offline 5 = None \<and>
   fst (fetchThumb offline Map.empty 5 single5of10) = None \<and>
   pageCache (snd (fetchThumb offline Map.empty 5 single5of10)) = pageCache single5of10 \<and>
   requests (snd (fetchThumb offline Map.empty 5 single5of10)) = requests single5of10 @ [5] \<and>
   \<not> loadDue single5of10 (dispatch ZoomInButton single5of10) \<and>
   requests (step offline Map.empty ZoomInButton single5of10) = requests single5of10 \<and>
   loadDue single4of10 (dispatch NextPageButton single4of10) \<and>
   showsPage (dispatch NextPageButton single4of10) 5 \<and>
   requestGoesOut Map.empty 5 (dispatch NextPageButton single4of10) \<and>
   count_list (requests (step offline Map.empty NextPageButton single4of10)) 5 =
     count_list (requests single4of10) 5 + 1"
proof -
  have go: "requestGoesOut Map.empty 5 single5of10"
    by (simp add: requestGoesOut_def single5of10_def initial_def)
  have off: "offline 5 = None" by (simp add: offline_def)
  have same: "\<not> loadDue single5of10 (dispatch ZoomInButton single5of10)"
    by (simp add: loadDue_def dispatch_def zoomInClick_def)
  have nxt: "dispatch NextPageButton single4of10 = single4of10\<lparr>currentPage := 5\<rparr>"
    by (simp add: dispatch_def goNextSingle_def single4of10_def initial_def)
  have due: "loadDue single4of10 (dispatch NextPageButton single4of10)"
    by (simp add: nxt loadDue_def) (simp add: single4of10_def)
  have sh: "showsPage (dispatch NextPageButton single4of10) 5"
    by (simp add: nxt showsPage_def) (simp add: single4of10_def)
  have go2: "requestGoesOut Map.empty 5 (dispatch NextPageButton single4of10)"
    by (simp add: nxt requestGoesOut_def) (simp add: single4of10_def initial_def)
  have ev: "\<forall>doc. ZoomInButton \<noteq> DocumentChanged doc" "\<forall>doc. NextPageButton \<noteq> DocumentChanged doc"
    by simp_all
  have 1: "fst (fetchThumb offline Map.empty 5 single5of10) = None \<and>
      pageCache (snd (fetchThumb offline Map.empty 5 single5of10)) = pageCache single5of10 \<and>
      requests (snd (fetchThumb offline Map.empty 5 single5of10)) = requests single5of10 @ [5]"
    using fetch_failures [where cc = Map.empty and p = 5 and s = single5of10 and api = offline]
      go off by blast
  have 2: "requests (step offline Map.empty ZoomInButton single5of10) = requests single5of10"
    using fetch_failures [where e = ZoomInButton and s = single5of10 and api = offline
        and cc = Map.empty] ev(1) same by blast
  have 3: "count_list (requests (step offline Map.empty NextPageButton single4of10)) 5 =
     count_list (requests single4of10) 5 + 1"
    using fetch_failures [where e = NextPageButton and s = single4of10 and api = offline
        and cc = Map.empty and p = 5] ev(2) due sh go2 by blast
  show ?thesis using go off same due sh go2 1 2 3 by blast
qed

subsection \<open>A flip timer that outlives its flip\<close>

lemma step_nav_fields:
  assumes "\<And>doc. e \<noteq> DocumentChanged doc"
  shows "currentSpread (step api cc e s) = currentSpread (dispatch e s)"
    "flipping (step api cc e s) = flipping (dispatch e s)"
    "flipTimers (step api cc e s) = flipTimers (dispatch e s)"
    "flipTimeoutRef (step api cc e s) = flipTimeoutRef (dispatch e s)"
    "nextTimerId (step api cc e s) = nextTimerId (dispatch e s)"
    "totalPages (step api cc e s) = totalPages (dispatch e s)"
    "viewMode (step api cc e s) = viewMode (dispatch e s)"
  by (simp_all add: step_plain [OF assms] afterRender_nav)

lemma flipStarted_more:
  "flipTimeoutRef flipStarted = Some 1" "nextTimerId flipStarted = 2"
  by (simp_all add: flipStarted_def step_nav_fields dispatch_def goNextSpread_def
      startFlip_def book10_simps totalSpreads_10 Let_def)

lemma spreadOne_simps:
  "currentSpread spreadOne = 1" "flipping spreadOne = None" "flipTimers spreadOne = []"
  "flipTimeoutRef spreadOne = Some 1" "nextTimerId spreadOne = 2" "totalPages spreadOne = 10"
  "viewMode spreadOne = Book"
proof -
  have fire: "flipTimeout 1 flipStarted = flipCallback FlipNext 6 (flipStarted\<lparr>flipTimers := []\<rparr>)"
    using flipStarted_simps(3) by (rule flipTimeout_single)
  have d: "dispatch (FlipTimeout 1) flipStarted = flipTimeout 1 flipStarted"
    unfolding dispatch_def by (simp only: event.case)
  show "currentSpread spreadOne = 1" "flipping spreadOne = None" "flipTimers spreadOne = []"
    "flipTimeoutRef spreadOne = Some 1" "nextTimerId spreadOne = 2" "totalPages spreadOne = 10"
    "viewMode spreadOne = Book"
    unfolding spreadOne_def
    by (simp_all only: step_nav_fields event.distinct not_False_eq_True d fire)
      (simp_all add: flipCallback_def flipStarted_simps flipStarted_more)
qed

lemma flipFromOne_simps:
  "currentSpread flipFromOne = 1" "flipping flipFromOne = Some FlipNext"
  "flipTimers flipFromOne = [(2, FlipNext, 6)]" "flipTimeoutRef flipFromOne = Some 2"
  "nextTimerId flipFromOne = 3" "totalPages flipFromOne = 10" "viewMode flipFromOne = Book"
  by (simp_all add: flipFromOne_def step_nav_fields dispatch_def goNextSpread_def
      startFlip_def clearTimeout_def spreadOne_simps totalSpreads_10 Let_def)

lemma spreadTwo_simps:
  "currentSpread spreadTwo = 2" "flipping spreadTwo = None" "flipTimers spreadTwo = []"
  "flipTimeoutRef spreadTwo = Some 2" "nextTimerId spreadTwo = 3" "totalPages spreadTwo = 10"
  "viewMode spreadTwo = Book"
proof -
  have fire: "flipTimeout 2 flipFromOne = flipCallback FlipNext 6 (flipFromOne\<lparr>flipTimers := []\<rparr>)"
    using flipFromOne_simps(3) by (rule flipTimeout_single)
  have d: "dispatch (FlipTimeout 2) flipFromOne = flipTimeout 2 flipFromOne"
    unfolding dispatch_def by (simp only: event.case)
  show "currentSpread spreadTwo = 2" "flipping spreadTwo = None" "flipTimers spreadTwo = []"
    "flipTimeoutRef spreadTwo = Some 2" "nextTimerId spreadTwo = 3" "totalPages spreadTwo = 10"
    "viewMode spreadTwo = Book"
    unfolding spreadTwo_def
    by (simp_all only: step_nav_fields event.distinct not_False_eq_True d fire)
      (simp_all add: flipCallback_def flipFromOne_simps)
qed

lemma flipFromTwo_simps:
  "currentSpread flipFromTwo = 2" "flipping flipFromTwo = Some FlipNext"
  "flipTimers flipFromTwo = [(3, FlipNext, 6)]" "totalPages flipFromTwo = 10"
  "viewMode flipFromTwo = Book"
  by (simp_all add: flipFromTwo_def step_nav_fields dispatch_def goNextSpread_def
      startFlip_def clearTimeout_def spreadTwo_simps totalSpreads_10 Let_def)

lemma jumpedFirst_simps:
  "currentSpread jumpedFirst = 0" "flipping jumpedFirst = None"
  "flipTimers jumpedFirst = [(3, FlipNext, 6)]"
  by (simp_all add: jumpedFirst_def step_nav_fields dispatch_def goFirstSpread_def
      flipFromTwo_simps)

lemma reachable_jumpedFirst: "reachable jumpedFirst"
  unfolding jumpedFirst_def flipFromTwo_def spreadTwo_def flipFromOne_def spreadOne_def
    flipStarted_def book10_def
  by (intro reachable.intros)

text \<open>
  Claim C6. While a flip is in progress a \<open>next\<close> or \<open>prev\<close> request has no effect on the
  spread index and starts no second timer; a request is accepted only when no flip is
  in progress and its target is in range; and when the timer completes, the spread
  index is exactly one further in the requested direction and no flip is in progress.
  The code keeps the first two. It breaks the last where the timer outlives its flip:
  the buttons to the first and to the last spread clear the flip state but not the
  timer, which \<open>goNextSpread\<close>, \<open>goPrevSpread\<close> and the unmount cleanup do clear. With
  ten pages, \<open>next\<close> requested at the spread 2 and the first spread clicked during
  the flip, no flip is in progress and the timer is still pending; when it completes,
  the viewer is moved from the spread 0 to the spread 1, not to the spread 3. With
  \<open>next\<close> requested at the spread 0 and the last spread clicked during the flip, the
  timer completes with the index left at 5.
\<close>

theorem flip_stale_timer:
  "reachable jumpedFirst \<and>
   currentSpread spreadTwo = 2 \<and> flipping spreadTwo = None \<and>
   flipping flipFromTwo = Some FlipNext \<and> flipTimers flipFromTwo = [(3, FlipNext, 6)] \<and>
   currentSpread jumpedFirst = 0 \<and> flipping jumpedFirst = None \<and>
   flipTimers jumpedFirst = [(3, FlipNext, 6)] \<and>
   currentSpread (step offline Map.empty (FlipTimeout 3) jumpedFirst) = 1 \<and>
   currentSpread (step offline Map.empty (FlipTimeout 3) jumpedFirst) \<noteq> currentSpread spreadTwo + 1 \<and>
   reachable jumpedLast \<and> currentSpread flipStarted = 0 \<and>
   flipping jumpedLast = None \<and> flipTimers jumpedLast = [(1, FlipNext, 6)] \<and>
   currentSpread jumpedLast = 5 \<and>
   currentSpread (step offline Map.empty (FlipTimeout 1) jumpedLast) = 5"
proof -
  have fire3: "flipTimeout 3 jumpedFirst = flipCallback FlipNext 6 (jumpedFirst\<lparr>flipTimers := []\<rparr>)"
    using jumpedFirst_simps(3) by (rule flipTimeout_single)
  have d3: "dispatch (FlipTimeout 3) jumpedFirst = flipTimeout 3 jumpedFirst"
    unfolding dispatch_def by (simp only: event.case)
  have "currentSpread (flipTimeout 3 jumpedFirst) = 1"
    unfolding fire3 by (simp add: flipCallback_fields jumpedFirst_simps)
  then have a: "currentSpread (step offline Map.empty (FlipTimeout 3) jumpedFirst) = 1"
    by (simp only: step_nav_fields event.distinct not_False_eq_True d3)
  have fire1: "flipTimeout 1 jumpedLast = flipCallback FlipNext 6 (jumpedLast\<lparr>flipTimers := []\<rparr>)"
    using jumpedLast_simps(3) by (rule flipTimeout_single)
  have d1: "dispatch (FlipTimeout 1) jumpedLast = flipTimeout 1 jumpedLast"
    unfolding dispatch_def by (simp only: event.case)
  have "currentSpread (flipTimeout 1 jumpedLast) = 5"
    unfolding fire1 by (simp add: flipCallback_fields jumpedLast_simps)
  then have b: "currentSpread (step offline Map.empty (FlipTimeout 1) jumpedLast) = 5"
    by (simp only: step_nav_fields event.distinct not_False_eq_True d1)
  have c: "currentSpread (step offline Map.empty (FlipTimeout 3) jumpedFirst) \<noteq> currentSpread spreadTwo + 1"
    unfolding a spreadTwo_simps(1) by simp
  show ?thesis
    using a b c reachable_jumpedFirst reachable_samples(3) spreadTwo_simps(1,2)
      flipFromTwo_simps(2,3) jumpedFirst_simps jumpedLast_simps flipStarted_simps(1)
    by blast
qed

end
